theory Spec2Isabelle
  imports Main "HOL-Library.Word"
begin

section \<open>JavaScript strings\<close>

text \<open>
  A JavaScript string is a sequence of UTF-16 code units. The playlist rewriter cuts
  strings at code units (\<open>split\<close>, \<open>trim\<close>, a regular expression without the
  \<open>u\<close> flag) and \<open>encodeURIComponent\<close> raises \<open>URIError\<close> on an unpaired
  surrogate, so strings are modelled as lists of 16-bit words. \<open>js\<close> turns an
  ASCII literal of the source into its code units.
\<close>

type_synonym jschar = "16 word"
type_synonym jsstring = "jschar list"

definition js :: "string \<Rightarrow> jsstring" where
  "js s = map (\<lambda>c. of_nat (of_char c)) s"

abbreviation LF :: jschar where "LF \<equiv> 0x0A"
abbreviation dquote :: jschar where "dquote \<equiv> 0x22"

text \<open>\<open>s.startsWith(p)\<close> and \<open>s.includes(p)\<close>.\<close>

definition startsWith :: "jsstring \<Rightarrow> jsstring \<Rightarrow> bool" where
  "startsWith s p = (take (length p) s = p)"

fun includesStr :: "jsstring \<Rightarrow> jsstring \<Rightarrow> bool" where
  "includesStr [] p = (p = [])"
| "includesStr (c # cs) p = (startsWith (c # cs) p \<or> includesStr cs p)"

text \<open>
  \<open>s.trim()\<close> removes the code units of WhiteSpace and LineTerminator (ECMA-262) from
  both ends: TAB, LF, VT, FF, CR, SP, NBSP, the space separators U+1680, U+2000 to U+200A,
  U+202F, U+205F, U+3000, the separators U+2028 and U+2029, and the byte order mark U+FEFF.
\<close>

definition isWhiteSpace :: "jschar \<Rightarrow> bool" where
  "isWhiteSpace c =
     (c = 0x09 \<or> c = 0x0A \<or> c = 0x0B \<or> c = 0x0C \<or> c = 0x0D \<or> c = 0x20 \<or> c = 0xA0
      \<or> c = 0x1680 \<or> (0x2000 \<le> c \<and> c \<le> 0x200A) \<or> c = 0x2028 \<or> c = 0x2029
      \<or> c = 0x202F \<or> c = 0x205F \<or> c = 0x3000 \<or> c = 0xFEFF)"

definition trim :: "jsstring \<Rightarrow> jsstring" where
  "trim s = rev (dropWhile isWhiteSpace (rev (dropWhile isWhiteSpace s)))"

text \<open>
  \<open>content.split('\n')\<close> always returns at least one string, and
  \<open>lines.join('\n')\<close> puts a line feed between neighbours.
\<close>

fun split :: "jsstring \<Rightarrow> jsstring list" where
  "split [] = [[]]"
| "split (c # cs) =
     (if c = LF then [] # split cs
      else (case split cs of [] \<Rightarrow> [[c]] | l # ls \<Rightarrow> (c # l) # ls))"

fun join :: "jsstring list \<Rightarrow> jsstring" where
  "join [] = []"
| "join [l] = l"
| "join (l # m # ls) = l @ LF # join (m # ls)"

text \<open>
  \<open>s.lastIndexOf(c)\<close> for a one-character pattern (\<open>-1\<close> when absent) and
  \<open>s.substring(0, e)\<close>, which clamps \<open>e\<close> to the length of \<open>s\<close> and to 0.
\<close>

definition lastIndexOf :: "jsstring \<Rightarrow> jschar \<Rightarrow> int" where
  "lastIndexOf s c =
     (if c \<in> set s then int (length s) - 1 - int (length (takeWhile (\<lambda>d. d \<noteq> c) (rev s)))
      else - 1)"

definition substring0 :: "jsstring \<Rightarrow> int \<Rightarrow> jsstring" where
  "substring0 s e = take (nat e) s"

subsection \<open>encodeURIComponent\<close>

text \<open>
  ECMA-262, Encode with the set of unescaped characters of \<open>encodeURIComponent\<close>:
  letters, digits and \<open>- _ . ! ~ * ' ( )\<close> are copied; every other code point is
  written as the \<open>%XX\<close> escapes of its UTF-8 octets, upper-case hexadecimal; an unpaired
  surrogate raises \<open>URIError\<close>.
\<close>

datatype error = URIError

definition uriUnescaped :: "jschar \<Rightarrow> bool" where
  "uriUnescaped c =
     ((0x41 \<le> c \<and> c \<le> 0x5A) \<or> (0x61 \<le> c \<and> c \<le> 0x7A) \<or> (0x30 \<le> c \<and> c \<le> 0x39)
      \<or> c = 0x2D \<or> c = 0x5F \<or> c = 0x2E \<or> c = 0x21 \<or> c = 0x7E \<or> c = 0x2A
      \<or> c = 0x27 \<or> c = 0x28 \<or> c = 0x29)"

definition isLeadSurrogate :: "jschar \<Rightarrow> bool" where
  "isLeadSurrogate c = (0xD800 \<le> c \<and> c \<le> 0xDBFF)"

definition isTrailSurrogate :: "jschar \<Rightarrow> bool" where
  "isTrailSurrogate c = (0xDC00 \<le> c \<and> c \<le> 0xDFFF)"

definition surrogatePairToCodePoint :: "jschar \<Rightarrow> jschar \<Rightarrow> nat" where
  "surrogatePairToCodePoint lead trail =
     (unat lead - 0xD800) * 0x400 + (unat trail - 0xDC00) + 0x10000"

definition utf8 :: "nat \<Rightarrow> nat list" where
  "utf8 cp =
     (if cp < 0x80 then [cp]
      else if cp < 0x800 then [0xC0 + cp div 0x40, 0x80 + cp mod 0x40]
      else if cp < 0x10000 then
        [0xE0 + cp div 0x1000, 0x80 + cp div 0x40 mod 0x40, 0x80 + cp mod 0x40]
      else
        [0xF0 + cp div 0x40000, 0x80 + cp div 0x1000 mod 0x40, 0x80 + cp div 0x40 mod 0x40,
         0x80 + cp mod 0x40])"

definition hexDigit :: "nat \<Rightarrow> jschar" where
  "hexDigit n = (if n < 10 then of_nat (0x30 + n) else of_nat (0x41 + (n - 10)))"

definition percentOctet :: "nat \<Rightarrow> jsstring" where
  "percentOctet b = [0x25, hexDigit (b div 16), hexDigit (b mod 16)]"

definition percentCodePoint :: "nat \<Rightarrow> jsstring" where
  "percentCodePoint cp = concat (map percentOctet (utf8 cp))"

fun encodeURIComponent :: "jsstring \<Rightarrow> error + jsstring" where
  "encodeURIComponent [] = Inr []"
| "encodeURIComponent (c # cs) =
     (if uriUnescaped c then map_sum id ((#) c) (encodeURIComponent cs)
      else if isTrailSurrogate c then Inl URIError
      else if isLeadSurrogate c then
        (case cs of
           [] \<Rightarrow> Inl URIError
         | d # ds \<Rightarrow>
             if isTrailSurrogate d
             then map_sum id ((@) (percentCodePoint (surrogatePairToCodePoint c d)))
                    (encodeURIComponent ds)
             else Inl URIError)
      else map_sum id ((@) (percentCodePoint (unat c))) (encodeURIComponent cs))"

text \<open>
  A string is well formed when it has no unpaired surrogate. Text decoded from UTF-8
  (\<open>response.text()\<close>, \<open>buffer.toString('utf8')\<close>) and the components of a parsed
  URL are well formed.
\<close>

fun wellFormed :: "jsstring \<Rightarrow> bool" where
  "wellFormed [] = True"
| "wellFormed (c # cs) =
     (if isTrailSurrogate c then False
      else if isLeadSurrogate c then
        (case cs of [] \<Rightarrow> False | d # ds \<Rightarrow> isTrailSurrogate d \<and> wellFormed ds)
      else wellFormed cs)"

section \<open>The playlist rewriter\<close>

text \<open>
  \<open>rewriteM3u8\<close> and \<open>resolveUrl\<close> are the same text in \<open>proxy-server.js\<close> and in the
  Workers script. A \<open>URL\<close> object is a record of the properties the two scripts
  read; \<open>searchParams\<close> gives the first value of each query parameter. Of the base
  URL the rewriter reads \<open>origin\<close> and \<open>pathname\<close>.
\<close>

record url =
  href :: jsstring
  protocol :: jsstring
  origin :: jsstring
  pathname :: jsstring
  searchParams :: "jsstring \<rightharpoonup> jsstring"

definition resolveUrl :: "jsstring \<Rightarrow> jsstring \<Rightarrow> jsstring \<Rightarrow> jsstring" where
  "resolveUrl u baseOrigin basePath =
     (if startsWith u (js ''http://'') \<or> startsWith u (js ''https://'') then u
      else if startsWith u (js ''//'') then js ''https:'' @ u
      else if startsWith u (js ''/'') then baseOrigin @ u
      else baseOrigin @ basePath @ u)"

text \<open>
  One attempt of the regular expression \<open>URI="([^"]+)"\<close> at the start of \<open>s\<close>: the
  five characters \<open>URI="\<close>, the longest run without a double quote, which must not be empty,
  and a closing double quote. The result is the captured run and the text after the match.
\<close>

definition matchURI :: "jsstring \<Rightarrow> (jsstring \<times> jsstring) option" where
  "matchURI s =
     (if startsWith s (js ''URI='' @ [dquote]) then
        (let t = drop 5 s;
             uri = takeWhile (\<lambda>c. c \<noteq> dquote) t;
             r = dropWhile (\<lambda>c. c \<noteq> dquote) t
         in if uri \<noteq> [] \<and> r \<noteq> [] then Some (uri, tl r) else None)
      else None)"

text \<open>
  \<open>line.replace(/URI="([^"]+)"/g, callback)\<close>: the matches are found from left to right
  without overlap, each is replaced by what the callback returns for its capture, and the
  text between matches is copied. A callback that throws ends the replacement.
\<close>

function replaceURI :: "(jsstring \<Rightarrow> error + jsstring) \<Rightarrow> jsstring \<Rightarrow> error + jsstring" where
  "replaceURI f [] = Inr []"
| "replaceURI f (c # cs) =
     (case matchURI (c # cs) of
        Some (uri, rest) \<Rightarrow>
          (case f uri of
             Inl e \<Rightarrow> Inl e
           | Inr r \<Rightarrow> map_sum id ((@) r) (replaceURI f rest))
      | None \<Rightarrow> map_sum id ((#) c) (replaceURI f cs))"
  by pat_completeness auto
termination
proof (relation "measure (\<lambda>(f, s). length s)")
  fix f :: "jsstring \<Rightarrow> error + jsstring" and c cs x2 uri rest
  assume "matchURI (c # cs) = Some x2" and "(uri, rest) = x2"
  then have r: "rest = tl (dropWhile (\<lambda>c. c \<noteq> dquote) (drop 5 (c # cs)))"
    and ne: "dropWhile (\<lambda>c. c \<noteq> dquote) (drop 5 (c # cs)) \<noteq> []"
    by (auto simp: matchURI_def Let_def split: if_splits)
  have "length (dropWhile (\<lambda>c. c \<noteq> dquote) (drop 5 (c # cs))) \<le> length (drop 5 (c # cs))"
    by (rule length_dropWhile_le)
  with ne r have "length rest < length (drop 5 (c # cs))"
    by (cases "dropWhile (\<lambda>c. c \<noteq> dquote) (drop 5 (c # cs))") auto
  then show "((f, rest), f, c # cs) \<in> measure (\<lambda>(f, s). length s)"
    by simp
qed auto

text \<open>
  The template \<open>${proxyOrigin}/?url=${encodeURIComponent(absoluteUrl)}\<close> with
  \<open>absoluteUrl = resolveUrl(ref, baseOrigin, basePath)\<close>, which both branches of
  \<open>rewriteM3u8\<close> build, and the callback \<open>(match, uri) => ...\<close> of the
  replacement, which wraps it in \<open>URI="..."\<close>.
\<close>

definition proxied :: "jsstring \<Rightarrow> jsstring \<Rightarrow> jsstring \<Rightarrow> jsstring \<Rightarrow> error + jsstring" where
  "proxied baseOrigin basePath proxyOrigin ref =
     map_sum id (\<lambda>enc. proxyOrigin @ js ''/?url='' @ enc)
       (encodeURIComponent (resolveUrl ref baseOrigin basePath))"

definition replaceMatch :: "jsstring \<Rightarrow> jsstring \<Rightarrow> jsstring \<Rightarrow> jsstring \<Rightarrow> error + jsstring" where
  "replaceMatch baseOrigin basePath proxyOrigin uri =
     map_sum id (\<lambda>p. js ''URI='' @ [dquote] @ p @ [dquote])
       (proxied baseOrigin basePath proxyOrigin uri)"

text \<open>The body of \<open>lines.map(line => ...)\<close> in \<open>rewriteM3u8\<close>.\<close>

definition rewriteLine :: "jsstring \<Rightarrow> jsstring \<Rightarrow> jsstring \<Rightarrow> jsstring \<Rightarrow> error + jsstring" where
  "rewriteLine baseOrigin basePath proxyOrigin line =
     (let trimmedLine = trim line in
      if startsWith trimmedLine (js ''#'') \<or> trimmedLine = [] then
        (if includesStr trimmedLine (js ''URI='' @ [dquote]) then
           replaceURI (replaceMatch baseOrigin basePath proxyOrigin) line
         else Inr line)
      else proxied baseOrigin basePath proxyOrigin trimmedLine)"

text \<open>\<open>lines.map\<close> with a callback that may throw: the first exception ends the map.\<close>

fun mapE :: "('a \<Rightarrow> error + 'b) \<Rightarrow> 'a list \<Rightarrow> error + 'b list" where
  "mapE f [] = Inr []"
| "mapE f (x # xs) =
     (case f x of
        Inl e \<Rightarrow> Inl e
      | Inr y \<Rightarrow> map_sum id ((#) y) (mapE f xs))"

definition basePathOf :: "url \<Rightarrow> jsstring" where
  "basePathOf baseUrl =
     substring0 (pathname baseUrl) (lastIndexOf (pathname baseUrl) 0x2F + 1)"

definition rewriteM3u8 :: "jsstring \<Rightarrow> url \<Rightarrow> jsstring \<Rightarrow> error + jsstring" where
  "rewriteM3u8 content baseUrl proxyOrigin =
     (let lines = split content;
          baseOrigin = origin baseUrl;
          basePath = basePathOf baseUrl
      in map_sum id join (mapE (rewriteLine baseOrigin basePath proxyOrigin) lines))"

section \<open>Headers, requests and responses\<close>

text \<open>
  Header names are HTTP tokens, hence ASCII, and on ASCII text \<open>key.toLowerCase()\<close>
  maps \<open>A\<close> to \<open>Z\<close> to \<open>a\<close> to \<open>z\<close> and keeps every other character.
\<close>

definition asciiLower :: "jschar \<Rightarrow> jschar" where
  "asciiLower c = (if 0x41 \<le> c \<and> c \<le> 0x5A then c + 0x20 else c)"

definition toLowerCase :: "jsstring \<Rightarrow> jsstring" where
  "toLowerCase s = map asciiLower s"

definition endsWith :: "jsstring \<Rightarrow> jsstring \<Rightarrow> bool" where
  "endsWith s p = (length p \<le> length s \<and> drop (length s - length p) s = p)"

text \<open>
  A header collection is a map from names to values. A \<open>Headers\<close> object of the
  Workers runtime compares names without regard to case: \<open>get\<close>, \<open>has\<close>,
  \<open>set\<close> and \<open>delete\<close> work on the lower-case name, and \<open>new Headers(init)\<close>
  (also the \<open>headers\<close> option of \<open>new Response\<close>) enters the pairs of an object
  literal in order. A plain JavaScript object, as Node uses for headers, has the keys as
  they are written; \<open>objectOf\<close> is an object literal with spread, where a later key
  replaces an earlier one.
\<close>

type_synonym headers = "jsstring \<rightharpoonup> jsstring"

definition headers_get :: "headers \<Rightarrow> jsstring \<Rightarrow> jsstring option" where
  "headers_get h name = h (toLowerCase name)"

definition headers_has :: "headers \<Rightarrow> jsstring \<Rightarrow> bool" where
  "headers_has h name = (h (toLowerCase name) \<noteq> None)"

definition headers_set :: "headers \<Rightarrow> jsstring \<Rightarrow> jsstring \<Rightarrow> headers" where
  "headers_set h name val = h(toLowerCase name \<mapsto> val)"

definition headers_delete :: "headers \<Rightarrow> jsstring \<Rightarrow> headers" where
  "headers_delete h name = h(toLowerCase name := None)"

definition newHeaders :: "(jsstring \<times> jsstring) list \<Rightarrow> headers" where
  "newHeaders init = foldl (\<lambda>h (name, val). headers_set h name val) Map.empty init"

definition objectOf :: "(jsstring \<times> jsstring) list \<Rightarrow> headers" where
  "objectOf init = foldl (\<lambda>h (name, val). h(name \<mapsto> val)) Map.empty init"

text \<open>
  JavaScript truthiness of a value that is a string, \<open>null\<close> or \<open>undefined\<close>:
  only a string that is not empty is truthy.
\<close>

definition truthy :: "jsstring option \<Rightarrow> bool" where
  "truthy v = (case v of None \<Rightarrow> False | Some s \<Rightarrow> s \<noteq> [])"

text \<open>
  An inbound request: its method, its URL as parsed (\<open>reqUrl\<close>) and its headers, by
  lower-case name. A response: status, status text, headers and body. A body is absent,
  a text, the help page built by \<open>getHelpPage(origin)\<close>, the JSON text
  \<open>JSON.stringify({ error })\<close> of an error message, or the upstream body passed through.
\<close>

record request =
  reqMethod :: jsstring
  reqUrl :: url
  reqHeaders :: headers

datatype body = NoBody | Text jsstring | HelpPage jsstring | ErrorJson jsstring | Piped

record response =
  status :: nat
  statusText :: jsstring
  headers :: headers
  body :: body

text \<open>
  The upstream response as the proxy reads it: status, status text, the header entries in
  the order of iteration, and the body decoded as text.
\<close>

record upstream =
  upStatus :: nat
  upStatusText :: jsstring
  upHeaders :: "(jsstring \<times> jsstring) list"
  upText :: jsstring

definition CORS_HEADERS :: "(jsstring \<times> jsstring) list" where
  "CORS_HEADERS =
     [(js ''Access-Control-Allow-Origin'', js ''*''),
      (js ''Access-Control-Allow-Methods'', js ''GET, POST, PUT, DELETE, OPTIONS, HEAD''),
      (js ''Access-Control-Allow-Headers'', js ''Content-Type, Authorization, Range''),
      (js ''Access-Control-Expose-Headers'', js ''Content-Length, Content-Range''),
      (js ''Access-Control-Max-Age'', js ''86400'')]"

definition USER_AGENT :: jsstring where
  "USER_AGENT = js ''Mozilla/5.0 (Windows NT 10.0; Win64; x64) AppleWebKit/537.36 (KHTML, like Gecko) Chrome/120.0.0.0 Safari/537.36''"

section \<open>The Workers proxy\<close>

text \<open>
  The constructor \<open>new Response(body, { status, statusText, headers })\<close> of the Fetch
  standard. It throws a \<open>RangeError\<close> for a status outside 200 to 599, and a
  \<open>TypeError\<close> for a body that is not \<open>null\<close> under a null body status (101, 103,
  204, 205, 304); \<open>responseThrows\<close> is the name and the message of the error thrown, if
  any. The messages are the runtime's own, in the wording of the Workers runtime. Otherwise
  the constructor returns \<open>newResponse\<close>: a body given as a string gets the header
  \<open>content-type: text/plain;charset=UTF-8\<close> unless the headers given have a
  \<open>Content-Type\<close>. The body \<open>response.body\<close> of an upstream response (\<open>Piped\<close>) is a
  stream, or \<open>null\<close> under a null body status: it brings no content type and no
  \<open>TypeError\<close>.
\<close>

definition nullBodyStatus :: "nat \<Rightarrow> bool" where
  "nullBodyStatus st = (st = 101 \<or> st = 103 \<or> st = 204 \<or> st = 205 \<or> st = 304)"

definition isString :: "body \<Rightarrow> bool" where
  "isString b = (case b of NoBody \<Rightarrow> False | Piped \<Rightarrow> False | Text t \<Rightarrow> True
                 | HelpPage t \<Rightarrow> True | ErrorJson t \<Rightarrow> True)"

definition responseThrows :: "body \<Rightarrow> nat \<Rightarrow> (jsstring \<times> jsstring) option" where
  "responseThrows b st =
     (if st < 200 \<or> 599 < st then
        Some (js ''RangeError'',
              js ''Responses may only be constructed with status codes in the range 200 to 599, inclusive.'')
      else if isString b \<and> nullBodyStatus st then
        Some (js ''TypeError'',
              js ''Response with null body status (101, 204, 205, or 304) cannot have a body.'')
      else None)"

definition newResponse :: "body \<Rightarrow> nat \<Rightarrow> jsstring \<Rightarrow> headers \<Rightarrow> response" where
  "newResponse b st stText hs =
     \<lparr>status = st, statusText = stText,
      headers = (if isString b \<and> \<not> headers_has hs (js ''Content-Type'')
                 then headers_set hs (js ''content-type'') (js ''text/plain;charset=UTF-8'')
                 else hs),
      body = b\<rparr>"


text \<open>
  \<open>errorResponse(error, status)\<close>, which the script calls with the statuses 400 and 502
  only, and the set \<open>excludeHeaders\<close> that \<open>handleProxyRequest\<close> declares. (The
  module-level \<open>EXCLUDE_HEADERS\<close> of the Workers script is never read.)
\<close>

definition errorResponse :: "jsstring \<Rightarrow> nat \<Rightarrow> response" where
  "errorResponse err st =
     newResponse (ErrorJson err) st []
       (newHeaders ((js ''Content-Type'', js ''application/json; charset=utf-8'') # CORS_HEADERS))"

definition excludeHeaders :: "jsstring list" where
  "excludeHeaders =
     [js ''access-control-allow-origin'', js ''access-control-allow-methods'',
      js ''access-control-allow-headers'', js ''access-control-expose-headers'',
      js ''access-control-max-age'', js ''access-control-allow-credentials'',
      js ''content-encoding'', js ''transfer-encoding'', js ''connection'', js ''keep-alive'']"

text \<open>
  The regular expression \<open>/^https?:\/\//i\<close>. Without the \<open>u\<close> flag, ignoring case
  never lets a character outside ASCII match an ASCII letter, so the test compares the
  ASCII lower-case form.
\<close>

definition testHttpScheme :: "jsstring \<Rightarrow> bool" where
  "testHttpScheme s =
     (startsWith (map asciiLower s) (js ''http://'') \<or> startsWith (map asciiLower s) (js ''https://''))"

text \<open>
  The request headers that \<open>handleProxyRequest\<close> builds in \<open>headers\<close>: the spoofed
  \<open>Referer\<close>, \<open>Origin\<close> and \<open>User-Agent\<close>, then, for each name of
  \<open>copyHeaders\<close>, the client's value \<open>if (val)\<close>, then the default \<open>Accept\<close>.
\<close>

definition copyHeaders :: "jsstring list" where
  "copyHeaders = [js ''range'', js ''accept'', js ''accept-language'']"

definition upstreamHeaders :: "headers \<Rightarrow> url \<Rightarrow> headers" where
  "upstreamHeaders clientHeaders targetURL =
     (let h0 = headers_set Map.empty (js ''Referer'') (origin targetURL @ js ''/'');
          h1 = headers_set h0 (js ''Origin'') (origin targetURL);
          h2 = headers_set h1 (js ''User-Agent'') USER_AGENT;
          h3 = foldl (\<lambda>h name.
                  (let val = headers_get clientHeaders name
                   in if truthy val then headers_set h name (the val) else h))
                h2 copyHeaders
      in if \<not> headers_has h3 (js ''accept'') then headers_set h3 (js ''Accept'') (js ''*/*'')
         else h3)"

text \<open>
  The response headers that \<open>handleProxyRequest\<close> builds in \<open>responseHeaders\<close>: the
  upstream entries whose lower-case name is not in \<open>excludeHeaders\<close>, then the CORS
  headers.
\<close>

definition responseHeaders :: "(jsstring \<times> jsstring) list \<Rightarrow> headers" where
  "responseHeaders entries =
     (let copied = foldl (\<lambda>h (key, val).
                      if toLowerCase key \<notin> set excludeHeaders then headers_set h key val else h)
                    Map.empty entries
      in foldl (\<lambda>h (key, val). headers_set h key val) copied CORS_HEADERS)"

text \<open>
  \<open>response.headers.get(name)\<close> on the upstream entries, and the outcome of
  \<open>await fetch(proxyRequest, { signal })\<close>: a response, or a rejection with the name and
  the message of the error. The timer's \<open>controller.abort()\<close> rejects the fetch with an
  error named \<open>AbortError\<close>.
\<close>

definition entries_get :: "(jsstring \<times> jsstring) list \<Rightarrow> jsstring \<Rightarrow> jsstring option" where
  "entries_get entries name =
     map_of (map (\<lambda>(key, val). (toLowerCase key, val)) entries) (toLowerCase name)"

datatype fetchResult = Resolved upstream | Rejected jsstring jsstring

record proxyRequest =
  prUrl :: jsstring
  prMethod :: jsstring
  prHeaders :: headers
  prBody :: bool

text \<open>
  \<open>handleProxyRequest(request, targetUrlParam, currentOrigin)\<close>. The URL parser
  (\<open>new URL\<close>, \<open>None\<close> when it throws) and the network (\<open>fetch\<close>) are parameters.
  An exception of the rewriter or of the \<open>Response\<close> constructor is caught by the same
  \<open>catch\<close> as a rejected fetch; the message of V8's \<open>URIError\<close> is
  \<open>URI malformed\<close>. The fallback message of the source is the six code units written
  out below.
\<close>

definition errorMessage :: "error \<Rightarrow> jsstring" where
  "errorMessage e = (case e of URIError \<Rightarrow> js ''URI malformed'')"

definition proxyFailed :: jsstring where
  "proxyFailed = [0x4EE3, 0x7406, 0x8BF7, 0x6C42, 0x5931, 0x8D25]"

definition catchError :: "jsstring \<Rightarrow> jsstring \<Rightarrow> response" where
  "catchError name message =
     errorResponse
       (if name = js ''AbortError'' then js ''Request timeout (20s)''
        else js ''Proxy Error: '' @ (if message \<noteq> [] then message else proxyFailed))
       502"

definition handleProxyRequest ::
  "(jsstring \<Rightarrow> url option) \<Rightarrow> (proxyRequest \<Rightarrow> fetchResult) \<Rightarrow> request \<Rightarrow> jsstring \<Rightarrow> jsstring
     \<Rightarrow> response" where
  "handleProxyRequest parseURL fetch req targetUrlParam currentOrigin =
     (if startsWith targetUrlParam currentOrigin
      then errorResponse (js ''Loop detected: self-fetch blocked'') 400
      else if \<not> testHttpScheme targetUrlParam
      then errorResponse (js ''Invalid target URL'') 400
      else case parseURL targetUrlParam of
        None \<Rightarrow> errorResponse (js ''Invalid URL format'') 400
      | Some targetURL \<Rightarrow>
          (let proxyReq =
                 \<lparr>prUrl = href targetURL, prMethod = reqMethod req,
                  prHeaders = upstreamHeaders (reqHeaders req) targetURL,
                  prBody = (reqMethod req \<noteq> js ''GET'' \<and> reqMethod req \<noteq> js ''HEAD'')\<rparr>
           in case fetch proxyReq of
             Rejected name message \<Rightarrow> catchError name message
           | Resolved res \<Rightarrow>
               (let hs = responseHeaders (upHeaders res);
                    contentType =
                      (let ct = entries_get (upHeaders res) (js ''content-type'')
                       in if truthy ct then the ct else []);
                    isM3u8 = (endsWith (pathname targetURL) (js ''.m3u8'')
                              \<or> includesStr contentType (js ''mpegurl'')
                              \<or> includesStr contentType (js ''x-mpegurl''))
                in if isM3u8 \<and> 200 \<le> upStatus res \<and> upStatus res \<le> 299 then
                     (case rewriteM3u8 (upText res) targetURL currentOrigin of
                        Inl e \<Rightarrow> catchError (js ''URIError'') (errorMessage e)
                      | Inr rewrittenContent \<Rightarrow>
                          (case responseThrows (Text rewrittenContent) (upStatus res) of
                             Some (name, message) \<Rightarrow> catchError name message
                           | None \<Rightarrow>
                               newResponse (Text rewrittenContent) (upStatus res) (upStatusText res)
                                 (headers_delete
                                    (headers_set hs (js ''Content-Type'')
                                       (js ''application/vnd.apple.mpegurl''))
                                    (js ''Content-Length''))))
                   else
                     (case responseThrows Piped (upStatus res) of
                        Some (name, message) \<Rightarrow> catchError name message
                      | None \<Rightarrow> newResponse Piped (upStatus res) (upStatusText res) hs))))"

text \<open>\<open>handleRequest(request)\<close>, the entry point of the Workers script.\<close>

definition handleRequest ::
  "(jsstring \<Rightarrow> url option) \<Rightarrow> (proxyRequest \<Rightarrow> fetchResult) \<Rightarrow> request \<Rightarrow> response" where
  "handleRequest parseURL fetch req =
     (if reqMethod req = js ''OPTIONS''
      then newResponse NoBody 204 [] (newHeaders CORS_HEADERS)
      else
        (let targetUrlParam = searchParams (reqUrl req) (js ''url'')
         in if pathname (reqUrl req) = js ''/health''
            then newResponse (Text (js ''OK'')) 200 [] (newHeaders CORS_HEADERS)
            else if \<not> truthy targetUrlParam
            then newResponse (HelpPage (origin (reqUrl req))) 200 []
                   (newHeaders
                      ((js ''Content-Type'', js ''text/html; charset=utf-8'') # CORS_HEADERS))
            else handleProxyRequest parseURL fetch req (the targetUrlParam) (origin (reqUrl req))))"

section \<open>The Node proxy\<close>

text \<open>
  The handler of \<open>http.createServer\<close> in \<open>proxy-server.js\<close>, up to the point where it
  has answered or has issued the upstream request: \<open>Responded\<close> is
  \<open>res.writeHead(status, headers); res.end(body)\<close>, \<open>Requested\<close> is
  \<open>protocol.request(targetURL, proxyOptions, ...)\<close>. Headers are plain objects here.
  \<open>ACCESS_PASSWORD\<close> is a parameter, as is the URL parser. \<open>http.request\<close> throws for
  a URL whose protocol is not the module's (\<open>ERR_INVALID_PROTOCOL\<close>), inside the
  \<open>try\<close>. In a template literal an absent \<open>Host\<close> header reads \<open>undefined\<close>.
\<close>

definition EXCLUDE_HEADERS :: "jsstring list" where
  "EXCLUDE_HEADERS =
     [js ''access-control-allow-origin'', js ''access-control-allow-methods'',
      js ''access-control-allow-headers'', js ''access-control-expose-headers'',
      js ''access-control-max-age'', js ''access-control-allow-credentials'',
      js ''content-encoding'', js ''transfer-encoding'', js ''connection'', js ''keep-alive'',
      js ''host'']"

record proxyOptions =
  poMethod :: jsstring
  poHeaders :: headers
  poTimeout :: nat

datatype nodeResult = Responded response | Requested url proxyOptions

definition template :: "jsstring option \<Rightarrow> jsstring" where
  "template v = (case v of None \<Rightarrow> js ''undefined'' | Some s \<Rightarrow> s)"

definition proxyOptions_headers :: "headers \<Rightarrow> url \<Rightarrow> headers" where
  "proxyOptions_headers clientHeaders targetURL =
     (let h0 = Map.empty(js ''Referer'' \<mapsto> origin targetURL @ js ''/'');
          h1 = h0(js ''Origin'' \<mapsto> origin targetURL);
          h2 = h1(js ''User-Agent'' \<mapsto> USER_AGENT);
          h3 = foldl (\<lambda>h name. if truthy (clientHeaders name) then h(name \<mapsto> the (clientHeaders name)) else h)
                h2 [js ''range'', js ''accept'', js ''accept-language'']
      in if \<not> truthy (h3 (js ''Accept'')) then h3(js ''Accept'' \<mapsto> js ''*/*'') else h3)"

definition serverRequest :: "jsstring \<Rightarrow> (jsstring \<Rightarrow> url option) \<Rightarrow> request \<Rightarrow> nodeResult" where
  "serverRequest ACCESS_PASSWORD parseURL req =
     (if reqMethod req = js ''OPTIONS''
      then Responded \<lparr>status = 204, statusText = [], headers = objectOf CORS_HEADERS, body = NoBody\<rparr>
      else if pathname (reqUrl req) = js ''/health''
      then Responded \<lparr>status = 200, statusText = [], headers = objectOf CORS_HEADERS,
                       body = Text (js ''OK'')\<rparr>
      else
        (let targetUrlParam = searchParams (reqUrl req) (js ''url'')
         in if \<not> truthy targetUrlParam
            then Responded
                   \<lparr>status = 200, statusText = [],
                    headers = objectOf
                      ((js ''Content-Type'', js ''text/html; charset=utf-8'') # CORS_HEADERS),
                    body = HelpPage (js ''http://'' @ template (reqHeaders req (js ''host'')))\<rparr>
            else if ACCESS_PASSWORD \<noteq> []
                    \<and> (let auth = reqHeaders req (js ''authorization'')
                        in if truthy auth then auth \<noteq> Some (js ''Bearer '' @ ACCESS_PASSWORD)
                           else True)
            then Responded \<lparr>status = 403, statusText = [], headers = objectOf CORS_HEADERS,
                             body = Text (js ''Unauthorized'')\<rparr>
            else case parseURL (the targetUrlParam) of
              None \<Rightarrow>
                Responded \<lparr>status = 400, statusText = [], headers = objectOf CORS_HEADERS,
                           body = Text (js ''Invalid URL'')\<rparr>
            | Some targetURL \<Rightarrow>
                (let options =
                       \<lparr>poMethod = reqMethod req,
                        poHeaders = proxyOptions_headers (reqHeaders req) targetURL,
                        poTimeout = 20000\<rparr>
                 in if protocol targetURL = js ''https:'' \<or> protocol targetURL = js ''http:''
                    then Requested targetURL options
                    else Responded \<lparr>status = 400, statusText = [], headers = objectOf CORS_HEADERS,
                                     body = Text (js ''Invalid URL'')\<rparr>)))"

text \<open>
  The response headers that the upstream callback builds in \<open>responseHeaders\<close>: a copy of
  \<open>CORS_HEADERS\<close>, then every upstream key whose lower-case form is not in
  \<open>EXCLUDE_HEADERS\<close>, under the key as it is.
\<close>

definition responseHeaders_node :: "(jsstring \<times> jsstring) list \<Rightarrow> headers" where
  "responseHeaders_node entries =
     foldl (\<lambda>h (key, val). if toLowerCase key \<notin> set EXCLUDE_HEADERS then h(key \<mapsto> val) else h)
       (objectOf CORS_HEADERS) entries"


text \<open>
  The upstream callback of \<open>protocol.request\<close>, for the upstream response \<open>proxyRes\<close>
  whose headers object has the given entries and whose body, read to its end, decodes to
  \<open>upText\<close>. \<open>writeHead\<close> is given no status message. A playlist is rewritten only
  under status 200; an exception of the rewriter is answered \<open>Proxy M3U8 Error\<close>.
\<close>

definition proxyResponse :: "url \<Rightarrow> request \<Rightarrow> upstream \<Rightarrow> response" where
  "proxyResponse targetURL req proxyRes =
     (let hs = responseHeaders_node (upHeaders proxyRes);
          contentType =
            (let ct = objectOf (upHeaders proxyRes) (js ''content-type'')
             in if truthy ct then the ct else []);
          isM3u8 = (endsWith (pathname targetURL) (js ''.m3u8'')
                    \<or> includesStr contentType (js ''mpegurl'')
                    \<or> includesStr contentType (js ''x-mpegurl''))
      in if isM3u8 \<and> upStatus proxyRes = 200 then
           (let currentOrigin = js ''http://'' @ template (reqHeaders req (js ''host''))
            in case rewriteM3u8 (upText proxyRes) targetURL currentOrigin of
                 Inl e \<Rightarrow>
                   \<lparr>status = 502, statusText = [], headers = objectOf CORS_HEADERS,
                    body = Text (js ''Proxy M3U8 Error'')\<rparr>
               | Inr rewritten \<Rightarrow>
                   \<lparr>status = upStatus proxyRes, statusText = [],
                    headers = (hs(js ''Content-Type'' \<mapsto> js ''application/vnd.apple.mpegurl''))
                                (js ''content-length'' := None),
                    body = Text rewritten\<rparr>)
         else \<lparr>status = upStatus proxyRes, statusText = [], headers = hs, body = Piped\<rparr>)"

text \<open>
  The events of the upstream request \<open>proxyReq\<close> and what the handler writes to the
  client when one is emitted, if anything. The handler registers two listeners: the
  callback above, for the response, and \<open>proxyReq.on('error', ...)\<close>, which answers 502
  unless the headers are sent already. \<open>timeout: 20000\<close> makes the socket emit
  \<open>timeout\<close> after 20000 ms without activity; this event only notifies, it neither ends
  nor destroys the request, and the script registers no listener for it.
\<close>

datatype clientRequestEvent = ResponseEvent upstream | ErrorEvent jsstring | TimeoutEvent

definition proxyReq_emit :: "url \<Rightarrow> request \<Rightarrow> bool \<Rightarrow> clientRequestEvent \<Rightarrow> response option" where
  "proxyReq_emit targetURL req headersSent ev =
     (case ev of
        ResponseEvent proxyRes \<Rightarrow> Some (proxyResponse targetURL req proxyRes)
      | ErrorEvent message \<Rightarrow>
          (if \<not> headersSent
           then Some \<lparr>status = 502, statusText = [], headers = objectOf CORS_HEADERS,
                      body = Text (js ''Proxy Error: '' @ message)\<rparr>
           else None)
      | TimeoutEvent \<Rightarrow> None)"

text \<open>
  The answer of the Node server to a request, given the events that the upstream request
  emits, in order: what the handler itself responds, or else what the first event that
  writes to the client writes. \<open>None\<close> means that the client is left without an answer.
\<close>

fun firstAnswer :: "url \<Rightarrow> request \<Rightarrow> clientRequestEvent list \<Rightarrow> response option" where
  "firstAnswer targetURL req [] = None"
| "firstAnswer targetURL req (ev # evs) =
     (case proxyReq_emit targetURL req False ev of
        Some answer \<Rightarrow> Some answer
      | None \<Rightarrow> firstAnswer targetURL req evs)"

definition serverAnswer ::
  "jsstring \<Rightarrow> (jsstring \<Rightarrow> url option) \<Rightarrow> request \<Rightarrow> clientRequestEvent list \<Rightarrow> response option" where
  "serverAnswer ACCESS_PASSWORD parseURL req evs =
     (case serverRequest ACCESS_PASSWORD parseURL req of
        Responded answer \<Rightarrow> Some answer
      | Requested targetURL options \<Rightarrow> firstAnswer targetURL req evs)"

section \<open>Example data\<close>

text \<open>The base URL of the specification's examples.\<close>

definition cdnBase :: url where
  "cdnBase =
     \<lparr>href = js ''https://cdn.example.com/videos/abc/index.m3u8'', protocol = js ''https:'',
      origin = js ''https://cdn.example.com'', pathname = js ''/videos/abc/index.m3u8'',
      searchParams = Map.empty\<rparr>"


subsection \<open>Example requests\<close>

text \<open>
  \<open>exampleURL\<close> is \<open>new URL\<close> on the four target strings of the examples below: it
  parses the two URLs, and it throws for \<open>not-a-url\<close> and for a port beyond 65535.
  \<open>silentNetwork\<close> is an upstream that never answers, so that the timer aborts the fetch.
\<close>

definition exampleURL :: "jsstring \<Rightarrow> url option" where
  "exampleURL s =
     (if s = js ''http://localhost:8080/health'' then
        Some \<lparr>href = js ''http://localhost:8080/health'', protocol = js ''http:'',
              origin = js ''http://localhost:8080'', pathname = js ''/health'',
              searchParams = Map.empty\<rparr>
      else if s = js ''https://cdn.example.com/videos/abc/index.m3u8'' then Some cdnBase
      else None)"

definition silentNetwork :: "proxyRequest \<Rightarrow> fetchResult" where
  "silentNetwork r = Rejected (js ''AbortError'') (js ''The operation was aborted'')"

text \<open>\<open>GET /\<close> with no \<open>url\<close> parameter, sent to \<open>https://proxy.example\<close>.\<close>

definition rootRequest :: request where
  "rootRequest =
     \<lparr>reqMethod = js ''GET'',
      reqUrl = \<lparr>href = js ''https://proxy.example/'', protocol = js ''https:'',
                origin = js ''https://proxy.example'', pathname = js ''/'',
                searchParams = Map.empty\<rparr>,
      reqHeaders = [js ''host'' \<mapsto> js ''proxy.example'']\<rparr>"

text \<open>
  \<open>GET /?url=http://localhost:8080/health\<close>, sent to the proxy that listens on
  \<open>localhost:8080\<close>: the target is the proxy itself.
\<close>

definition selfRequest :: request where
  "selfRequest =
     \<lparr>reqMethod = js ''GET'',
      reqUrl = \<lparr>href = js ''http://localhost:8080/?url=http://localhost:8080/health'',
                protocol = js ''http:'', origin = js ''http://localhost:8080'', pathname = js ''/'',
                searchParams = [js ''url'' \<mapsto> js ''http://localhost:8080/health'']\<rparr>,
      reqHeaders = [js ''host'' \<mapsto> js ''localhost:8080'']\<rparr>"

text \<open>
  \<open>GET /?url=https://proxy.example:99999999\<close>, sent to \<open>https://proxy.example\<close>:
  the target starts with the proxy's origin and is not a URL.
\<close>

definition badPortRequest :: request where
  "badPortRequest =
     \<lparr>reqMethod = js ''GET'',
      reqUrl = \<lparr>href = js ''https://proxy.example/?url=https://proxy.example:99999999'',
                protocol = js ''https:'', origin = js ''https://proxy.example'', pathname = js ''/'',
                searchParams = [js ''url'' \<mapsto> js ''https://proxy.example:99999999'']\<rparr>,
      reqHeaders = [js ''host'' \<mapsto> js ''proxy.example'']\<rparr>"

text \<open>\<open>GET /?url=not-a-url\<close>, sent to \<open>https://proxy.example\<close>.\<close>

definition notUrlRequest :: request where
  "notUrlRequest =
     \<lparr>reqMethod = js ''GET'',
      reqUrl = \<lparr>href = js ''https://proxy.example/?url=not-a-url'',
                protocol = js ''https:'', origin = js ''https://proxy.example'', pathname = js ''/'',
                searchParams = [js ''url'' \<mapsto> js ''not-a-url'']\<rparr>,
      reqHeaders = [js ''host'' \<mapsto> js ''proxy.example'']\<rparr>"

text \<open>
  \<open>GET /?url=https://cdn.example.com/videos/abc/index.m3u8\<close>, sent to
  \<open>https://proxy.example\<close>.
\<close>

definition playlistRequest :: request where
  "playlistRequest =
     \<lparr>reqMethod = js ''GET'',
      reqUrl = \<lparr>href = js ''https://proxy.example/?url=https://cdn.example.com/videos/abc/index.m3u8'',
                protocol = js ''https:'', origin = js ''https://proxy.example'', pathname = js ''/'',
                searchParams = [js ''url'' \<mapsto> js ''https://cdn.example.com/videos/abc/index.m3u8'']\<rparr>,
      reqHeaders = [js ''host'' \<mapsto> js ''proxy.example'']\<rparr>"

section \<open>Lemmas about strings and the rewriter\<close>

subsection \<open>Splitting and joining lines\<close>

lemma split_not_Nil: "split s \<noteq> []"
  by (induction s) (auto split: list.splits)

lemma join_Cons: "ls \<noteq> [] \<Longrightarrow> join (l # ls) = l @ LF # join ls"
  by (cases ls) auto

lemma join_split: "join (split s) = s"
proof (induction s)
  case Nil
  show ?case by simp
next
  case (Cons c cs)
  show ?case
  proof (cases "c = LF")
    case True
    with Cons show ?thesis by (simp add: join_Cons split_not_Nil)
  next
    case False
    obtain l ls where sp: "split cs = l # ls"
      using split_not_Nil [of cs] by (cases "split cs") auto
    with Cons False show ?thesis by (cases ls) auto
  qed
qed

lemma split_no_LF: "l \<in> set (split s) \<Longrightarrow> LF \<notin> set l"
  by (induction s arbitrary: l) (auto split: if_splits list.splits)

lemma split_append_noLF: "LF \<notin> set l \<Longrightarrow> split (l @ LF # s) = l # split s"
  by (induction l) (auto split: list.splits)

lemma split_noLF: "LF \<notin> set l \<Longrightarrow> split l = [l]"
  by (induction l) (auto split: list.splits)

lemma split_join: "ls \<noteq> [] \<Longrightarrow> \<forall>l\<in>set ls. LF \<notin> set l \<Longrightarrow> split (join ls) = ls"
proof (induction ls rule: join.induct)
  case 1
  then show ?case by simp
next
  case (2 l)
  then show ?case by (simp add: split_noLF)
next
  case (3 l m ls)
  then show ?case by (simp add: split_append_noLF)
qed

subsection \<open>A map whose callback may throw\<close>

lemma mapE_Inr_length: "mapE f xs = Inr ys \<Longrightarrow> length ys = length xs"
  by (induction xs arbitrary: ys) (auto split: sum.splits simp: map_sum_def)

lemma mapE_Inr_nth: "mapE f xs = Inr ys \<Longrightarrow> i < length xs \<Longrightarrow> f (xs ! i) = Inr (ys ! i)"
proof (induction xs arbitrary: ys i)
  case Nil
  then show ?case by simp
next
  case (Cons x xs)
  then show ?case
    by (cases i) (auto split: sum.splits simp: map_sum_def)
qed

lemma mapE_all_Inr: "\<forall>x\<in>set xs. \<exists>y. f x = Inr y \<Longrightarrow> \<exists>ys. mapE f xs = Inr ys"
  by (induction xs) (auto split: sum.splits)

lemma mapE_id: "\<forall>x\<in>set xs. f x = Inr x \<Longrightarrow> mapE f xs = Inr xs"
  by (induction xs) auto

subsection \<open>Prefixes, substrings and trimming\<close>

lemma startsWith_iff: "startsWith s p \<longleftrightarrow> (\<exists>r. s = p @ r)"
  unfolding startsWith_def
  by (metis append_eq_conv_conj append_take_drop_id)

lemma includesStr_iff: "includesStr s p \<longleftrightarrow> (\<exists>a b. s = a @ p @ b)"
proof (induction s)
  case Nil
  show ?case by auto
next
  case (Cons c cs)
  show ?case
  proof
    assume "includesStr (c # cs) p"
    then consider "startsWith (c # cs) p" | "includesStr cs p" by auto
    then show "\<exists>a b. c # cs = a @ p @ b"
    proof cases
      case 1
      then obtain r where "c # cs = p @ r" by (auto simp: startsWith_iff)
      then have "c # cs = [] @ p @ r" by simp
      then show ?thesis by blast
    next
      case 2
      with Cons obtain a b where "cs = a @ p @ b" by auto
      then have "c # cs = (c # a) @ p @ b" by simp
      then show ?thesis by blast
    qed
  next
    assume "\<exists>a b. c # cs = a @ p @ b"
    then obtain a b where ab: "c # cs = a @ p @ b" by auto
    show "includesStr (c # cs) p"
    proof (cases a)
      case Nil
      with ab have "startsWith (c # cs) p" unfolding startsWith_iff by auto
      then show ?thesis by simp
    next
      case (Cons x a')
      with ab have "cs = a' @ p @ b" by simp
      with Cons.IH show ?thesis by auto
    qed
  qed
qed

lemma trim_decomp:
  "\<exists>a b. l = a @ trim l @ b \<and> (\<forall>c\<in>set a. isWhiteSpace c) \<and> (\<forall>c\<in>set b. isWhiteSpace c)"
proof -
  let ?a = "takeWhile isWhiteSpace l"
  let ?m = "dropWhile isWhiteSpace l"
  let ?b = "rev (takeWhile isWhiteSpace (rev ?m))"
  have "?m = rev (dropWhile isWhiteSpace (rev ?m)) @ rev (takeWhile isWhiteSpace (rev ?m))"
    by (metis rev_append rev_rev_ident takeWhile_dropWhile_id)
  then have m: "?m = trim l @ ?b" by (simp add: trim_def)
  have "l = ?a @ ?m" by simp
  with m have "l = ?a @ trim l @ ?b" by simp
  moreover have "\<forall>c\<in>set ?a. isWhiteSpace c" by (auto dest: set_takeWhileD)
  moreover have "\<forall>c\<in>set ?b. isWhiteSpace c" by (auto dest: set_takeWhileD)
  ultimately show ?thesis by blast
qed

lemma includesStr_trim: "includesStr (trim l) p \<Longrightarrow> includesStr l p"
proof -
  assume "includesStr (trim l) p"
  then obtain a b where t: "trim l = a @ p @ b" by (auto simp: includesStr_iff)
  obtain x y where "l = x @ trim l @ y" using trim_decomp [of l] by blast
  with t have "l = (x @ a) @ p @ (b @ y)" by simp
  then show ?thesis unfolding includesStr_iff by blast
qed


subsection \<open>Well formed strings\<close>

text \<open>
  A well formed string can be cut before a code unit that is not a trail surrogate and
  after one that is not a lead surrogate, and both pieces are well formed.
\<close>

lemma lead_not_trail: "isLeadSurrogate c \<Longrightarrow> \<not> isTrailSurrogate c"
  by (auto simp: isLeadSurrogate_def isTrailSurrogate_def word_le_nat_alt)

lemma wellFormed_trail: "isTrailSurrogate c \<Longrightarrow> wellFormed (c # cs) = False"
  by simp

lemma wellFormed_lead1: "isLeadSurrogate c \<Longrightarrow> wellFormed [c] = False"
  by simp

lemma wellFormed_lead2:
  "isLeadSurrogate c \<Longrightarrow> wellFormed (c # d # ds) = (isTrailSurrogate d \<and> wellFormed ds)"
  by (simp add: lead_not_trail)

lemma wellFormed_plain:
  "\<not> isLeadSurrogate c \<Longrightarrow> \<not> isTrailSurrogate c \<Longrightarrow> wellFormed (c # cs) = wellFormed cs"
  by simp

lemmas wellFormed_Cons = wellFormed_trail wellFormed_lead1 wellFormed_lead2 wellFormed_plain

declare wellFormed.simps(2) [simp del]

lemma wellFormed_append: "wellFormed a \<Longrightarrow> wellFormed b \<Longrightarrow> wellFormed (a @ b)"
proof (induction a rule: wellFormed.induct)
  case 1
  then show ?case by simp
next
  case (2 c cs)
  consider (trail) "isTrailSurrogate c" | (lead) "\<not> isTrailSurrogate c" "isLeadSurrogate c"
    | (plain) "\<not> isTrailSurrogate c" "\<not> isLeadSurrogate c" by blast
  then show ?case
  proof cases
    case trail
    with "2.prems" show ?thesis by (simp add: wellFormed_Cons)
  next
    case lead
    with "2.prems" obtain d ds where cs: "cs = d # ds"
      by (cases cs) (auto simp: wellFormed_Cons)
    with lead "2.prems" have "isTrailSurrogate d" "wellFormed ds"
      by (simp_all add: wellFormed_Cons)
    with "2.IH"(1) [OF lead cs] "2.prems" lead cs show ?thesis
      by (simp add: wellFormed_Cons)
  next
    case plain
    with "2.prems" "2.IH"(2) show ?thesis by (simp add: wellFormed_Cons)
  qed
qed

lemma wellFormed_cut_before:
  "wellFormed (a @ b) \<Longrightarrow> b = [] \<or> \<not> isTrailSurrogate (hd b) \<Longrightarrow> wellFormed a \<and> wellFormed b"
proof (induction a rule: wellFormed.induct)
  case 1
  then show ?case by simp
next
  case (2 c cs)
  consider (trail) "isTrailSurrogate c" | (lead) "\<not> isTrailSurrogate c" "isLeadSurrogate c"
    | (plain) "\<not> isTrailSurrogate c" "\<not> isLeadSurrogate c" by blast
  then show ?case
  proof cases
    case trail
    with "2.prems" show ?thesis by (simp add: wellFormed_Cons)
  next
    case lead
    show ?thesis
    proof (cases cs)
      case Nil
      with lead "2.prems" show ?thesis
        by (cases b) (simp_all add: wellFormed_Cons)
    next
      case (Cons d ds)
      with lead "2.prems" have "isTrailSurrogate d" "wellFormed (ds @ b)"
        by (simp_all add: wellFormed_Cons)
      with "2.IH"(1) [OF lead Cons] "2.prems"(2) lead Cons show ?thesis
        by (simp add: wellFormed_Cons)
    qed
  next
    case plain
    with "2.prems" "2.IH"(2) show ?thesis by (simp add: wellFormed_Cons)
  qed
qed

lemma wellFormed_cut_after:
  "wellFormed (a @ b) \<Longrightarrow> a = [] \<or> \<not> isLeadSurrogate (last a) \<Longrightarrow> wellFormed a \<and> wellFormed b"
proof (induction a rule: wellFormed.induct)
  case 1
  then show ?case by simp
next
  case (2 c cs)
  consider (trail) "isTrailSurrogate c" | (lead) "\<not> isTrailSurrogate c" "isLeadSurrogate c"
    | (plain) "\<not> isTrailSurrogate c" "\<not> isLeadSurrogate c" by blast
  then show ?case
  proof cases
    case trail
    with "2.prems" show ?thesis by (simp add: wellFormed_Cons)
  next
    case lead
    show ?thesis
    proof (cases cs)
      case Nil
      with lead "2.prems" show ?thesis by simp
    next
      case (Cons d ds)
      with lead "2.prems" have d: "isTrailSurrogate d" "wellFormed (ds @ b)"
        by (simp_all add: wellFormed_Cons)
      from d(1) have nl: "\<not> isLeadSurrogate d" using lead_not_trail by blast
      from "2.prems"(2) Cons nl have "ds = [] \<or> \<not> isLeadSurrogate (last ds)"
        by (cases ds) auto
      with "2.IH"(1) [OF lead Cons d(2)] d lead Cons show ?thesis
        by (simp add: wellFormed_Cons)
    qed
  next
    case plain
    from plain "2.prems" have w: "wellFormed (cs @ b)" by (simp add: wellFormed_Cons)
    from "2.prems"(2) plain have "cs = [] \<or> \<not> isLeadSurrogate (last cs)"
      by (cases cs) auto
    with "2.IH"(2) [OF plain w] plain show ?thesis by (simp add: wellFormed_Cons)
  qed
qed

lemma wellFormed_cut_at:
  assumes "wellFormed (a @ c # b)" and "\<not> isLeadSurrogate c" and "\<not> isTrailSurrogate c"
  shows "wellFormed a \<and> wellFormed b"
proof -
  from assms(1,3) have "wellFormed a \<and> wellFormed (c # b)"
    by (intro wellFormed_cut_before) auto
  with assms(2,3) show ?thesis by (simp add: wellFormed_Cons)
qed

subsection \<open>encodeURIComponent\<close>

text \<open>
  \<open>encodeURIComponent\<close> returns on every well formed string, and what it returns is
  made of unescaped characters and \<open>%\<close>.
\<close>

lemma uriUnescaped_not_surrogate:
  "uriUnescaped c \<Longrightarrow> \<not> isLeadSurrogate c \<and> \<not> isTrailSurrogate c"
  by (auto simp: uriUnescaped_def isLeadSurrogate_def isTrailSurrogate_def word_le_nat_alt)

lemma encodeURIComponent_wellFormed:
  "wellFormed s \<Longrightarrow> \<exists>e. encodeURIComponent s = Inr e"
proof (induction s rule: encodeURIComponent.induct)
  case 1
  show ?case by simp
next
  case (2 c cs)
  show ?case
  proof (cases "uriUnescaped c")
    case True
    with "2.prems" uriUnescaped_not_surrogate [of c] have "wellFormed cs"
      by (simp add: wellFormed_Cons)
    with "2.IH"(1) [OF True] True show ?thesis by auto
  next
    case nu: False
    consider (trail) "isTrailSurrogate c" | (lead) "\<not> isTrailSurrogate c" "isLeadSurrogate c"
      | (plain) "\<not> isTrailSurrogate c" "\<not> isLeadSurrogate c" by blast
    then show ?thesis
    proof cases
      case trail
      with "2.prems" show ?thesis by (simp add: wellFormed_Cons)
    next
      case lead
      with "2.prems" obtain d ds where cs: "cs = d # ds"
        by (cases cs) (auto simp: wellFormed_Cons)
      with lead "2.prems" have d: "isTrailSurrogate d" "wellFormed ds"
        by (simp_all add: wellFormed_Cons)
      from "2.IH"(2) [OF nu lead(1) lead(2) cs d(1) d(2)] nu lead cs d show ?thesis by auto
    next
      case plain
      with "2.prems" have "wellFormed cs" by (simp add: wellFormed_Cons)
      with "2.IH"(3) [OF nu plain] nu plain show ?thesis by auto
    qed
  qed
qed

lemma unat_of_nat_jschar: "k < 65536 \<Longrightarrow> unat (of_nat k :: jschar) = k"
proof -
  assume "k < 65536"
  then have "k mod 2 ^ LENGTH(16) = k" by simp
  moreover have "unat (of_nat k :: jschar) = k mod 2 ^ LENGTH(16)" by (rule unat_of_nat)
  ultimately show ?thesis by (simp only:)
qed

lemma hexDigit_unescaped: "n < 16 \<Longrightarrow> uriUnescaped (hexDigit n)"
proof -
  assume n: "n < 16"
  define k where "k = (if n < 10 then 0x30 + n else 0x41 + (n - 10))"
  have h: "hexDigit n = of_nat k" by (simp add: hexDigit_def k_def)
  from n have r: "(0x30 \<le> k \<and> k \<le> 0x39) \<or> (0x41 \<le> k \<and> k \<le> 0x5A)" by (auto simp: k_def)
  then have "k < 65536" by auto
  then have u: "unat (of_nat k :: jschar) = k" by (rule unat_of_nat_jschar)
  from r show ?thesis unfolding h uriUnescaped_def word_le_nat_alt u by auto
qed

lemma utf8_octet: "cp < 0x110000 \<Longrightarrow> b \<in> set (utf8 cp) \<Longrightarrow> b < 256"
  by (auto simp: utf8_def split: if_splits)

lemma percentCodePoint_chars:
  assumes "cp < 0x110000" and "x \<in> set (percentCodePoint cp)"
  shows "uriUnescaped x \<or> x = 0x25"
proof -
  from assms(2) obtain b where b: "b \<in> set (utf8 cp)" and x: "x \<in> set (percentOctet b)"
    by (auto simp: percentCodePoint_def)
  from b assms(1) have "b < 256" by (rule utf8_octet [rotated])
  then have "b div 16 < 16" and "b mod 16 < 16" by auto
  with x show ?thesis by (auto simp: percentOctet_def hexDigit_unescaped)
qed

lemma surrogatePairToCodePoint_bound:
  "isLeadSurrogate c \<Longrightarrow> isTrailSurrogate d \<Longrightarrow> surrogatePairToCodePoint c d < 0x110000"
  by (auto simp: isLeadSurrogate_def isTrailSurrogate_def surrogatePairToCodePoint_def word_le_nat_alt)

lemma unat_jschar_bound: "unat (c :: jschar) < 0x110000"
  using unsigned_less [of c, where ?'a = nat] by simp

lemma encodeURIComponent_chars:
  "encodeURIComponent s = Inr e \<Longrightarrow> x \<in> set e \<Longrightarrow> uriUnescaped x \<or> x = 0x25"
proof (induction s arbitrary: e rule: encodeURIComponent.induct)
  case 1
  then show ?case by simp
next
  case (2 c cs)
  show ?case
  proof (cases "uriUnescaped c")
    case True
    with "2.prems" "2.IH"(1) show ?thesis
      by (cases "encodeURIComponent cs") auto
  next
    case nu: False
    show ?thesis
    proof (cases "isLeadSurrogate c")
      case True
      with nu "2.prems" obtain d ds where cs: "cs = d # ds" and d: "isTrailSurrogate d"
        and nt: "\<not> isTrailSurrogate c"
        by (cases cs) (auto split: if_splits)
      with nu True "2.prems" "2.IH"(2) [OF nu nt True cs d] show ?thesis
        using percentCodePoint_chars [OF surrogatePairToCodePoint_bound [OF True d], of x]
        by (cases "encodeURIComponent ds") auto
    next
      case False
      with nu "2.prems" have nt: "\<not> isTrailSurrogate c" by (auto split: if_splits)
      with nu False "2.prems" "2.IH"(3) [OF nu nt False] show ?thesis
        using percentCodePoint_chars [OF unat_jschar_bound [of c], of x]
        by (cases "encodeURIComponent cs") auto
    qed
  qed
qed

lemma encodeURIComponent_no_LF: "encodeURIComponent s = Inr e \<Longrightarrow> LF \<notin> set e"
  using encodeURIComponent_chars [of s e LF] by (auto simp: uriUnescaped_def)

subsection \<open>The replacement of \<open>URI="..."\<close>\<close>

lemma matchURI_SomeD:
  assumes "matchURI s = Some (uri, rest)"
  shows "s = js ''URI='' @ [dquote] @ uri @ [dquote] @ rest \<and> uri \<noteq> [] \<and> dquote \<notin> set uri"
proof -
  let ?t = "drop 5 s"
  from assms have sw: "startsWith s (js ''URI='' @ [dquote])"
    and u: "uri = takeWhile (\<lambda>c. c \<noteq> dquote) ?t" and ne: "uri \<noteq> []"
    and dn: "dropWhile (\<lambda>c. c \<noteq> dquote) ?t \<noteq> []"
    and r: "rest = tl (dropWhile (\<lambda>c. c \<noteq> dquote) ?t)"
    by (auto simp: matchURI_def Let_def split: if_splits)
  from sw obtain t where s: "s = (js ''URI='' @ [dquote]) @ t" unfolding startsWith_iff by blast
  then have t: "?t = t" by (simp add: js_def)
  from dn r obtain y where d: "dropWhile (\<lambda>c. c \<noteq> dquote) ?t = y # rest"
    by (cases "dropWhile (\<lambda>c. c \<noteq> dquote) ?t") auto
  then have A: "?t = takeWhile (\<lambda>c. c \<noteq> dquote) ?t @ y # rest \<and> \<not> y \<noteq> dquote"
    by (rule dropWhile_eq_Cons_conv [THEN iffD1])
  then have y: "y = dquote" by blast
  have "?t = uri @ y # rest" unfolding u using A by (rule conjunct1)
  with y have "?t = uri @ dquote # rest" by (simp only:)
  with s t have "s = js ''URI='' @ [dquote] @ uri @ [dquote] @ rest" by simp
  moreover from u have "dquote \<notin> set uri" by (auto dest: set_takeWhileD)
  ultimately show ?thesis using ne by blast
qed





subsection \<open>Well formed pieces of a playlist\<close>

lemma isWhiteSpace_not_surrogate:
  "isWhiteSpace c \<Longrightarrow> \<not> isLeadSurrogate c \<and> \<not> isTrailSurrogate c"
  by (auto simp: isWhiteSpace_def isLeadSurrogate_def isTrailSurrogate_def word_le_nat_alt)

lemma wellFormed_plain_list:
  "\<forall>c\<in>set a. \<not> isLeadSurrogate c \<and> \<not> isTrailSurrogate c \<Longrightarrow> wellFormed a"
  by (induction a) (simp_all add: wellFormed_Cons)

lemma wellFormed_js: "wellFormed (js s)"
proof (rule wellFormed_plain_list, rule ballI)
  fix c assume "c \<in> set (js s)"
  then obtain x where c: "c = of_nat (of_char x)" by (auto simp: js_def)
  have "(of_char x :: nat) < 256" by simp
  then have "(of_char x :: nat) < 65536" by arith
  then have "(of_char x :: nat) mod 65536 = of_char x" by (rule mod_less)
  then have "unat c = of_char x" unfolding c by (simp add: unat_of_nat)
  with \<open>(of_char x :: nat) < 256\<close> have "unat c < 256" by simp
  then show "\<not> isLeadSurrogate c \<and> \<not> isTrailSurrogate c"
    by (auto simp: isLeadSurrogate_def isTrailSurrogate_def word_le_nat_alt)
qed

lemma wellFormed_trim: "wellFormed l \<Longrightarrow> wellFormed (trim l)"
proof -
  assume wf: "wellFormed l"
  obtain a b where l: "l = a @ trim l @ b" and a: "\<forall>c\<in>set a. isWhiteSpace c"
    and b: "\<forall>c\<in>set b. isWhiteSpace c"
    using trim_decomp [of l] by blast
  from a have "a = [] \<or> \<not> isLeadSurrogate (last a)"
    using isWhiteSpace_not_surrogate by (cases a rule: rev_cases) auto
  moreover from wf l have "wellFormed (a @ (trim l @ b))" by simp
  ultimately have tb: "wellFormed (trim l @ b)" using wellFormed_cut_after by blast
  from b have "b = [] \<or> \<not> isTrailSurrogate (hd b)"
    using isWhiteSpace_not_surrogate by (cases b) auto
  with tb show ?thesis using wellFormed_cut_before by blast
qed

lemma LF_plain: "\<not> isLeadSurrogate LF \<and> \<not> isTrailSurrogate LF"
  by (simp add: isLeadSurrogate_def isTrailSurrogate_def)

lemma dquote_plain: "\<not> isLeadSurrogate dquote \<and> \<not> isTrailSurrogate dquote"
  by (simp add: isLeadSurrogate_def isTrailSurrogate_def)

lemma slash_plain: "\<not> isLeadSurrogate 0x2F \<and> \<not> isTrailSurrogate 0x2F"
  by (simp add: isLeadSurrogate_def isTrailSurrogate_def)

lemma wellFormed_join: "wellFormed (join ls) \<Longrightarrow> l \<in> set ls \<Longrightarrow> wellFormed l"
proof (induction ls rule: join.induct)
  case 1
  then show ?case by simp
next
  case (2 x)
  then show ?case by simp
next
  case (3 x m ls)
  from "3.prems"(1) have "wellFormed (x @ LF # join (m # ls))" by simp
  then have "wellFormed x \<and> wellFormed (join (m # ls))"
    using LF_plain by (intro wellFormed_cut_at [of x LF]) auto
  with "3.IH" "3.prems"(2) show ?case by auto
qed

lemma wellFormed_split: "wellFormed s \<Longrightarrow> l \<in> set (split s) \<Longrightarrow> wellFormed l"
  using wellFormed_join [of "split s" l] by (simp add: join_split)

subsection \<open>The base path\<close>

lemma lastIndexOf_last:
  assumes "c \<notin> set f"
  shows "lastIndexOf (d @ c # f) c = int (length d)"
proof -
  have "rev (d @ c # f) = rev f @ c # rev d" by simp
  moreover from assms have "takeWhile (\<lambda>x. x \<noteq> c) (rev f @ c # rev d) = rev f"
    by (subst takeWhile_append2) auto
  ultimately show ?thesis by (simp add: lastIndexOf_def)
qed

lemma basePathOf_dir:
  "pathname u = d @ [0x2F] @ f \<Longrightarrow> 0x2F \<notin> set f \<Longrightarrow> basePathOf u = d @ [0x2F]"
proof -
  assume p: "pathname u = d @ [0x2F] @ f" and f: "0x2F \<notin> set f"
  have n: "nat (int (length d) + 1) = Suc (length d)" by simp
  from f have "lastIndexOf (d @ 0x2F # f) 0x2F = int (length d)" by (rule lastIndexOf_last)
  with p show ?thesis by (simp add: basePathOf_def substring0_def n)
qed

lemma basePathOf_none: "0x2F \<notin> set (pathname u) \<Longrightarrow> basePathOf u = []"
  by (simp add: basePathOf_def substring0_def lastIndexOf_def)

lemma wellFormed_basePathOf: "wellFormed (pathname u) \<Longrightarrow> wellFormed (basePathOf u)"
proof (cases "0x2F \<in> set (pathname u)")
  case False
  then show ?thesis by (simp add: basePathOf_none)
next
  case True
  assume wf: "wellFormed (pathname u)"
  from True obtain d f where p: "pathname u = d @ 0x2F # f" and f: "0x2F \<notin> set f"
    using split_list_last [of "0x2F" "pathname u"] by blast
  then have b: "basePathOf u = d @ [0x2F]" using basePathOf_dir [of u d f] by simp
  from wf p have "wellFormed (d @ 0x2F # f)" by simp
  then have "wellFormed d" using slash_plain wellFormed_cut_at [of d "0x2F" f] by blast
  moreover have "wellFormed [0x2F]" using slash_plain by (simp add: wellFormed_Cons)
  ultimately show ?thesis unfolding b by (rule wellFormed_append)
qed

subsection \<open>Rewriting one line\<close>

lemma wellFormed_resolveUrl:
  "wellFormed r \<Longrightarrow> wellFormed bo \<Longrightarrow> wellFormed bp \<Longrightarrow> wellFormed (resolveUrl r bo bp)"
  by (simp add: resolveUrl_def wellFormed_append wellFormed_js)

lemma proxied_success:
  assumes "wellFormed r" "wellFormed bo" "wellFormed bp"
  shows "\<exists>enc. encodeURIComponent (resolveUrl r bo bp) = Inr enc
           \<and> proxied bo bp po r = Inr (po @ js ''/?url='' @ enc)"
proof -
  from assms have "wellFormed (resolveUrl r bo bp)" by (rule wellFormed_resolveUrl)
  then obtain enc where "encodeURIComponent (resolveUrl r bo bp) = Inr enc"
    using encodeURIComponent_wellFormed by blast
  then show ?thesis by (simp add: proxied_def)
qed

lemma proxied_no_LF:
  assumes "proxied bo bp po r = Inr t" and "LF \<notin> set po"
  shows "LF \<notin> set t"
proof -
  from assms(1) obtain enc where e: "encodeURIComponent (resolveUrl r bo bp) = Inr enc"
    and t: "t = po @ js ''/?url='' @ enc"
    by (cases "encodeURIComponent (resolveUrl r bo bp)") (auto simp: proxied_def)
  from e have "LF \<notin> set enc" by (rule encodeURIComponent_no_LF)
  moreover have "LF \<notin> set (js ''/?url='')" by (simp add: js_def)
  ultimately show ?thesis using assms(2) t by simp
qed

lemma replaceMatch_no_LF:
  assumes "replaceMatch bo bp po r = Inr t" and "LF \<notin> set po"
  shows "LF \<notin> set t"
proof -
  from assms(1) obtain p where p: "proxied bo bp po r = Inr p"
    and t: "t = js ''URI='' @ [dquote] @ p @ [dquote]"
    by (cases "proxied bo bp po r") (auto simp: replaceMatch_def)
  from p assms(2) have "LF \<notin> set p" by (rule proxied_no_LF)
  moreover have "LF \<notin> set (js ''URI='')" by (simp add: js_def)
  ultimately show ?thesis using t by simp
qed

lemma replaceMatch_success:
  assumes "wellFormed r" "wellFormed bo" "wellFormed bp"
  shows "\<exists>enc. encodeURIComponent (resolveUrl r bo bp) = Inr enc
           \<and> replaceMatch bo bp po r = Inr (js ''URI='' @ [dquote] @ po @ js ''/?url='' @ enc @ [dquote])"
  using proxied_success [OF assms, of po] by (auto simp: replaceMatch_def)

lemma matchURI_rest_subset:
  assumes "matchURI s = Some (uri, rest)"
  shows "set rest \<subseteq> set s"
proof -
  from assms have "s = js ''URI='' @ [dquote] @ uri @ [dquote] @ rest"
    using matchURI_SomeD by blast
  then have "set s = set (js ''URI='' @ [dquote] @ uri @ [dquote] @ rest)"
    by (rule arg_cong)
  then show ?thesis by (simp only: set_append) blast
qed

lemma replaceURI_None:
  "matchURI (c # cs) = None \<Longrightarrow> replaceURI f (c # cs) = map_sum id ((#) c) (replaceURI f cs)"
  by simp

lemma replaceURI_Some:
  "matchURI (c # cs) = Some (uri, rest) \<Longrightarrow>
   replaceURI f (c # cs) =
     (case f uri of Inl e \<Rightarrow> Inl e | Inr r \<Rightarrow> map_sum id ((@) r) (replaceURI f rest))"
  by simp

lemma map_sum_InrD: "map_sum id g x = Inr t \<Longrightarrow> \<exists>y. x = Inr y \<and> t = g y"
  by (cases x) auto

lemma replaceURI_NoneD:
  assumes "matchURI (c # cs) = None" and "replaceURI f (c # cs) = Inr t"
  shows "\<exists>t'. replaceURI f cs = Inr t' \<and> t = c # t'"
proof -
  from assms(2) have "map_sum id ((#) c) (replaceURI f cs) = Inr t"
    unfolding replaceURI_None [OF assms(1)] .
  then show ?thesis by (rule map_sum_InrD)
qed

lemma replaceURI_SomeD:
  assumes "matchURI (c # cs) = Some (uri, rest)" and "replaceURI f (c # cs) = Inr t"
  shows "\<exists>r t'. f uri = Inr r \<and> replaceURI f rest = Inr t' \<and> t = r @ t'"
proof -
  from assms(2) have eq:
    "(case f uri of Inl e \<Rightarrow> Inl e | Inr r \<Rightarrow> map_sum id ((@) r) (replaceURI f rest)) = Inr t"
    unfolding replaceURI_Some [OF assms(1)] .
  then obtain r where r: "f uri = Inr r" by (cases "f uri") simp_all
  with eq have "map_sum id ((@) r) (replaceURI f rest) = Inr t" by simp
  then have "\<exists>y. replaceURI f rest = Inr y \<and> t = r @ y" by (rule map_sum_InrD)
  with r show ?thesis by blast
qed

lemma replaceURI_no_LF:
  "replaceURI f s = Inr t \<Longrightarrow> \<forall>v r. f v = Inr r \<longrightarrow> LF \<notin> set r \<Longrightarrow> LF \<notin> set s \<Longrightarrow> LF \<notin> set t"
proof (induction f s arbitrary: t rule: replaceURI.induct)
  case (1 f)
  then show ?case by simp
next
  case (2 f c cs)
  show ?case
  proof (cases "matchURI (c # cs)")
    case None
    from replaceURI_NoneD [OF None "2.prems"(1)]
    obtain t' where t': "replaceURI f cs = Inr t'" and t: "t = c # t'" by blast
    from "2.prems"(3) have "LF \<notin> set cs" by simp
    from "2.IH"(1) [OF None t' "2.prems"(2) this] "2.prems"(3) t show ?thesis by simp
  next
    case (Some m)
    obtain uri rest where m: "m = (uri, rest)" by (cases m)
    from Some m have sm: "matchURI (c # cs) = Some (uri, rest)" by simp
    from replaceURI_SomeD [OF sm "2.prems"(1)]
    obtain r t' where r: "f uri = Inr r" and t': "replaceURI f rest = Inr t'" and t: "t = r @ t'"
      by blast
    from matchURI_rest_subset [OF sm] "2.prems"(3) have "LF \<notin> set rest" by blast
    from "2.IH"(2) [OF Some m [symmetric] r t' "2.prems"(2) this] have "LF \<notin> set t'" .
    moreover from r "2.prems"(2) have "LF \<notin> set r" by blast
    ultimately show ?thesis using t by simp
  qed
qed

lemma replaceURI_success:
  "\<exists>p. wellFormed (p @ s) \<Longrightarrow> \<forall>v. wellFormed v \<longrightarrow> (\<exists>r. f v = Inr r) \<Longrightarrow> \<exists>t. replaceURI f s = Inr t"
proof (induction f s rule: replaceURI.induct)
  case (1 f)
  show ?case by simp
next
  case (2 f c cs)
  from "2.prems"(1) obtain p where p: "wellFormed (p @ c # cs)" by blast
  show ?case
  proof (cases "matchURI (c # cs)")
    case None
    from p have "wellFormed ((p @ [c]) @ cs)" by simp
    then have "\<exists>p. wellFormed (p @ cs)" by (rule exI)
    from "2.IH"(1) [OF None this "2.prems"(2)] obtain t where "replaceURI f cs = Inr t" by blast
    then show ?thesis unfolding replaceURI_None [OF None] by simp
  next
    case (Some m)
    obtain uri rest where m: "m = (uri, rest)" by (cases m)
    from Some m have sm: "matchURI (c # cs) = Some (uri, rest)" by simp
    then have s: "c # cs = js ''URI='' @ [dquote] @ uri @ [dquote] @ rest"
      using matchURI_SomeD by blast
    from p have "wellFormed ((p @ js ''URI='') @ dquote # (uri @ dquote # rest))"
      unfolding s by simp
    then have "wellFormed (p @ js ''URI='') \<and> wellFormed (uri @ dquote # rest)"
      using dquote_plain by (intro wellFormed_cut_at [of _ dquote]) simp_all
    then have "wellFormed uri \<and> wellFormed rest"
      using dquote_plain by (intro wellFormed_cut_at [of _ dquote]) simp_all
    then have u: "wellFormed uri" and r: "wellFormed rest" by simp_all
    from u "2.prems"(2) obtain x where x: "f uri = Inr x" by blast
    from r have "wellFormed ([] @ rest)" by simp
    then have "\<exists>p. wellFormed (p @ rest)" by (rule exI)
    from "2.IH"(2) [OF Some m [symmetric] x this "2.prems"(2)]
    obtain t where "replaceURI f rest = Inr t" by blast
    with x show ?thesis unfolding replaceURI_Some [OF sm] by simp
  qed
qed

lemma rewriteLine_success:
  assumes "wellFormed line" "wellFormed bo" "wellFormed bp"
  shows "\<exists>r. rewriteLine bo bp po line = Inr r"
proof -
  from assms(1) have t: "wellFormed (trim line)" by (rule wellFormed_trim)
  from assms(1) have "\<exists>p. wellFormed (p @ line)" by (intro exI [of _ "[]"]) simp
  moreover have "\<forall>v. wellFormed v \<longrightarrow> (\<exists>r. replaceMatch bo bp po v = Inr r)"
    using replaceMatch_success [OF _ assms(2,3)] by blast
  ultimately have "\<exists>r. replaceURI (replaceMatch bo bp po) line = Inr r"
    by (rule replaceURI_success)
  moreover have "\<exists>r. proxied bo bp po (trim line) = Inr r"
    using proxied_success [OF t assms(2,3)] by blast
  ultimately show ?thesis by (auto simp: rewriteLine_def Let_def)
qed

lemma rewriteLine_no_LF:
  assumes "rewriteLine bo bp po line = Inr r" "LF \<notin> set line" "LF \<notin> set po"
  shows "LF \<notin> set r"
proof -
  have tl: "LF \<notin> set (trim line)"
  proof -
    obtain a b where "line = a @ trim line @ b" using trim_decomp [of line] by blast
    then have "set (trim line) \<subseteq> set line" by (metis set_append Un_upper1 Un_upper2 subset_trans)
    with assms(2) show ?thesis by blast
  qed
  consider (uri) "rewriteLine bo bp po line = replaceURI (replaceMatch bo bp po) line"
    | (same) "rewriteLine bo bp po line = Inr line"
    | (media) "rewriteLine bo bp po line = proxied bo bp po (trim line)"
    unfolding rewriteLine_def Let_def
    by (cases "startsWith (trim line) (js ''#'') \<or> trim line = []";
        cases "includesStr (trim line) (js ''URI='' @ [dquote])") auto
  then show ?thesis
  proof cases
    case uri
    with assms(1) have "replaceURI (replaceMatch bo bp po) line = Inr r" by simp
    moreover have "\<forall>v t. replaceMatch bo bp po v = Inr t \<longrightarrow> LF \<notin> set t"
      using replaceMatch_no_LF assms(3) by blast
    ultimately show ?thesis using assms(2) by (rule replaceURI_no_LF)
  next
    case same
    with assms(1,2) show ?thesis by simp
  next
    case media
    with assms(1) have "proxied bo bp po (trim line) = Inr r" by simp
    then show ?thesis using assms(3) by (rule proxied_no_LF)
  qed
qed

lemma rewriteLine_media:
  assumes "trim line \<noteq> []" and "\<not> startsWith (trim line) (js ''#'')"
  shows "rewriteLine bo bp po line = proxied bo bp po (trim line)"
  using assms by (simp add: rewriteLine_def Let_def)

lemma rewriteLine_passthrough:
  assumes "trim line = [] \<or> startsWith (trim line) (js ''#'')"
    and "\<not> includesStr line (js ''URI='' @ [dquote])"
  shows "rewriteLine bo bp po line = Inr line"
proof -
  from assms(2) have "\<not> includesStr (trim line) (js ''URI='' @ [dquote])"
    using includesStr_trim by blast
  with assms(1) show ?thesis by (auto simp: rewriteLine_def Let_def)
qed

lemma rewriteM3u8_success:
  assumes "wellFormed content" "wellFormed (origin baseUrl)" "wellFormed (pathname baseUrl)"
  shows "\<exists>outs. mapE (rewriteLine (origin baseUrl) (basePathOf baseUrl) proxyOrigin) (split content) = Inr outs
            \<and> rewriteM3u8 content baseUrl proxyOrigin = Inr (join outs)"
proof -
  from assms(3) have bp: "wellFormed (basePathOf baseUrl)" by (rule wellFormed_basePathOf)
  have "\<forall>l\<in>set (split content). \<exists>r. rewriteLine (origin baseUrl) (basePathOf baseUrl) proxyOrigin l = Inr r"
    using rewriteLine_success [OF wellFormed_split [OF assms(1)] assms(2) bp] by blast
  then obtain outs where "mapE (rewriteLine (origin baseUrl) (basePathOf baseUrl) proxyOrigin) (split content) = Inr outs"
    using mapE_all_Inr by blast
  then show ?thesis by (auto simp: rewriteM3u8_def Let_def)
qed






section \<open>Lemmas about headers and requests\<close>

subsection \<open>String literals\<close>

text \<open>
  \<open>js\<close> is injective and commutes with \<open>length\<close> and \<open>take\<close>, so that literals
  are compared as character lists.
\<close>

lemma js_eq_iff [simp]: "js s = js t \<longleftrightarrow> s = t"
proof -
  have "inj (\<lambda>c. of_nat (of_char c) :: jschar)"
  proof (rule injI)
    fix c d :: char
    assume "(of_nat (of_char c) :: jschar) = of_nat (of_char d)"
    then have "unat (of_nat (of_char c) :: jschar) = unat (of_nat (of_char d) :: jschar)" by simp
    moreover have "(of_char c :: nat) < 256" "(of_char d :: nat) < 256" by simp_all
    then have "(of_char c :: nat) < 65536" "(of_char d :: nat) < 65536" by arith+
    ultimately have "(of_char c :: nat) = of_char d" by (simp add: unat_of_nat_jschar)
    then show "c = d" by simp
  qed
  then have "inj js" unfolding js_def [abs_def] by (rule inj_mapI)
  then show ?thesis by (simp add: inj_eq)
qed

lemma length_js [simp]: "length (js s) = length s"
  by (simp add: js_def)

lemma take_js [simp]: "take n (js s) = js (take n s)"
  by (simp add: js_def take_map)

lemma js_Nil_iff [simp]: "js s = [] \<longleftrightarrow> s = []"
  by (simp add: js_def)

lemma startsWith_js [simp]: "startsWith (js s) (js p) \<longleftrightarrow> take (length p) s = p"
  by (simp add: startsWith_def)

lemma lower_names:
  "toLowerCase (js ''Access-Control-Allow-Origin'') = js ''access-control-allow-origin''"
  "toLowerCase (js ''Access-Control-Allow-Methods'') = js ''access-control-allow-methods''"
  "toLowerCase (js ''Access-Control-Allow-Headers'') = js ''access-control-allow-headers''"
  "toLowerCase (js ''Access-Control-Expose-Headers'') = js ''access-control-expose-headers''"
  "toLowerCase (js ''Access-Control-Max-Age'') = js ''access-control-max-age''"
  "toLowerCase (js ''Content-Type'') = js ''content-type''"
  "toLowerCase (js ''Content-Length'') = js ''content-length''"
  "toLowerCase (js ''Content-Encoding'') = js ''content-encoding''"
  "toLowerCase (js ''Referer'') = js ''referer''"
  "toLowerCase (js ''Origin'') = js ''origin''"
  "toLowerCase (js ''User-Agent'') = js ''user-agent''"
  "toLowerCase (js ''Accept'') = js ''accept''"
  "toLowerCase (js ''accept'') = js ''accept''"
  "toLowerCase (js ''range'') = js ''range''"
  "toLowerCase (js ''accept-language'') = js ''accept-language''"
  "toLowerCase (js ''content-type'') = js ''content-type''"
  "toLowerCase (js ''content-encoding'') = js ''content-encoding''"
  "toLowerCase (js ''access-control-allow-origin'') = js ''access-control-allow-origin''"
  "toLowerCase (js ''access-control-allow-private-network'') = js ''access-control-allow-private-network''"
  by (simp_all add: toLowerCase_def asciiLower_def js_def)

lemmas header_eval = headers_get_def headers_set_def headers_has_def headers_delete_def lower_names

subsection \<open>Excluded names are never copied\<close>

lemma copied_excluded:
  "n \<in> set excludeHeaders \<Longrightarrow>
   foldl (\<lambda>h (key, val). if toLowerCase key \<notin> set excludeHeaders then headers_set h key val else h)
     h entries n = h n"
proof (induction entries arbitrary: h)
  case Nil
  show ?case by simp
next
  case (Cons e entries)
  obtain key val where e: "e = (key, val)" by (cases e)
  show ?case
  proof (cases "toLowerCase key \<in> set excludeHeaders")
    case True
    with Cons e show ?thesis by simp
  next
    case False
    with Cons.prems have "toLowerCase key \<noteq> n" by auto
    then have "headers_set h key val n = h n" by (simp add: headers_set_def)
    with Cons False e show ?thesis by simp
  qed
qed

lemma copied_excluded_node:
  "toLowerCase name \<in> set EXCLUDE_HEADERS \<Longrightarrow>
   foldl (\<lambda>h (key, val). if toLowerCase key \<notin> set EXCLUDE_HEADERS then h(key \<mapsto> val) else h)
     h entries name = h name"
proof (induction entries arbitrary: h)
  case Nil
  show ?case by simp
next
  case (Cons e entries)
  obtain key val where e: "e = (key, val)" by (cases e)
  show ?case
  proof (cases "toLowerCase key \<in> set EXCLUDE_HEADERS")
    case True
    with Cons e show ?thesis by simp
  next
    case False
    with Cons.prems have "key \<noteq> name" by auto
    with Cons False e show ?thesis by simp
  qed
qed

lemma cors_over:
  "foldl (\<lambda>h (key, val). headers_set h key val) h CORS_HEADERS n =
     (if n = js ''access-control-max-age'' then Some (js ''86400'')
      else if n = js ''access-control-expose-headers'' then Some (js ''Content-Length, Content-Range'')
      else if n = js ''access-control-allow-headers'' then Some (js ''Content-Type, Authorization, Range'')
      else if n = js ''access-control-allow-methods'' then Some (js ''GET, POST, PUT, DELETE, OPTIONS, HEAD'')
      else if n = js ''access-control-allow-origin'' then Some (js ''*'')
      else h n)"
  by (simp add: CORS_HEADERS_def header_eval)

lemma responseHeaders_excluded:
  assumes "toLowerCase name \<in> set excludeHeaders"
  shows "headers_get (responseHeaders entries) name = headers_get (newHeaders CORS_HEADERS) name"
proof -
  let ?n = "toLowerCase name"
  let ?copied = "foldl (\<lambda>h (key, val).
                      if toLowerCase key \<notin> set excludeHeaders then headers_set h key val else h)
                    Map.empty entries"
  from assms have "?copied ?n = None" by (simp add: copied_excluded)
  then show ?thesis
    unfolding headers_get_def responseHeaders_def newHeaders_def Let_def cors_over by simp
qed

lemma responseHeaders_node_excluded:
  assumes "toLowerCase name \<in> set EXCLUDE_HEADERS"
  shows "responseHeaders_node entries name = objectOf CORS_HEADERS name"
  unfolding responseHeaders_node_def using assms by (rule copied_excluded_node)

lemma objectOf_CORS:
  "objectOf CORS_HEADERS name =
     (if name = js ''Access-Control-Max-Age'' then Some (js ''86400'')
      else if name = js ''Access-Control-Expose-Headers'' then Some (js ''Content-Length, Content-Range'')
      else if name = js ''Access-Control-Allow-Headers'' then Some (js ''Content-Type, Authorization, Range'')
      else if name = js ''Access-Control-Allow-Methods'' then Some (js ''GET, POST, PUT, DELETE, OPTIONS, HEAD'')
      else if name = js ''Access-Control-Allow-Origin'' then Some (js ''*'')
      else None)"
  by (simp add: objectOf_def CORS_HEADERS_def)

lemma CORS_names_lower:
  "toLowerCase ` fst ` set CORS_HEADERS =
     set [js ''access-control-allow-origin'', js ''access-control-allow-methods'',
          js ''access-control-allow-headers'', js ''access-control-expose-headers'',
          js ''access-control-max-age'']"
  by (simp add: CORS_HEADERS_def lower_names)

lemma CORS_fixed:
  "\<forall>(cname, cval) \<in> set CORS_HEADERS.
     toLowerCase cname \<in> set excludeHeaders \<and> toLowerCase cname \<in> set EXCLUDE_HEADERS
     \<and> headers_get (newHeaders CORS_HEADERS) cname = Some cval
     \<and> objectOf CORS_HEADERS cname = Some cval"
  by (simp add: CORS_HEADERS_def excludeHeaders_def EXCLUDE_HEADERS_def newHeaders_def objectOf_def
      header_eval)

lemma transfer_names_excluded:
  assumes "n \<in> set [js ''content-encoding'', js ''transfer-encoding'', js ''connection'',
                      js ''keep-alive'', js ''access-control-allow-credentials'']"
  shows "n \<in> set excludeHeaders" and "n \<in> set EXCLUDE_HEADERS"
    and "n \<notin> set [js ''access-control-allow-origin'', js ''access-control-allow-methods'',
          js ''access-control-allow-headers'', js ''access-control-expose-headers'',
          js ''access-control-max-age'']"
proof -
  from assms consider "n = js ''content-encoding''" | "n = js ''transfer-encoding''"
    | "n = js ''connection''" | "n = js ''keep-alive''" | "n = js ''access-control-allow-credentials''"
    by auto
  note c = this
  from c show "n \<in> set excludeHeaders" by cases (simp_all add: excludeHeaders_def)
  from c show "n \<in> set EXCLUDE_HEADERS" by cases (simp_all add: EXCLUDE_HEADERS_def)
  from c show "n \<notin> set [js ''access-control-allow-origin'', js ''access-control-allow-methods'',
          js ''access-control-allow-headers'', js ''access-control-expose-headers'',
          js ''access-control-max-age'']"
    by cases simp_all
qed

subsection \<open>Truthiness\<close>

lemma truthy_Some [simp]: "truthy (Some s) \<longleftrightarrow> s \<noteq> []"
  by (simp add: truthy_def)

lemma truthy_None [simp]: "\<not> truthy None"
  by (simp add: truthy_def)

lemma truthy_the: "truthy v \<Longrightarrow> v = Some (the v)"
  by (cases v) simp_all

subsection \<open>The four classes of \<open>resolveUrl\<close>\<close>

lemma resolveUrl_classes:
  "resolveUrl (js ''http://'' @ r) bo bp = js ''http://'' @ r"
  "resolveUrl (js ''https://'' @ r) bo bp = js ''https://'' @ r"
  "resolveUrl (js ''//'' @ r) bo bp = js ''https://'' @ r"
  "\<not> startsWith r (js ''/'') \<Longrightarrow> resolveUrl (js ''/'' @ r) bo bp = bo @ js ''/'' @ r"
  "\<not> startsWith r (js ''/'') \<Longrightarrow> \<not> startsWith r (js ''http://'') \<Longrightarrow> \<not> startsWith r (js ''https://'')
     \<Longrightarrow> resolveUrl r bo bp = bo @ bp @ r"
proof -
  show "resolveUrl (js ''http://'' @ r) bo bp = js ''http://'' @ r"
    by (simp add: resolveUrl_def startsWith_def)
  show "resolveUrl (js ''https://'' @ r) bo bp = js ''https://'' @ r"
    by (simp add: resolveUrl_def startsWith_def)
  have a: "\<not> startsWith (js ''//'' @ r) (js ''http://'')" "\<not> startsWith (js ''//'' @ r) (js ''https://'')"
    by (simp_all add: startsWith_def js_def)
  have b: "startsWith (js ''//'' @ r) (js ''//'')" by (simp add: startsWith_def)
  have c: "js ''https:'' @ js ''//'' @ r = js ''https://'' @ r" by (simp add: js_def)
  from a b c show "resolveUrl (js ''//'' @ r) bo bp = js ''https://'' @ r"
    by (simp add: resolveUrl_def)
next
  assume n: "\<not> startsWith r (js ''/'')"
  have a: "\<not> startsWith (js ''/'' @ r) (js ''http://'')" "\<not> startsWith (js ''/'' @ r) (js ''https://'')"
    by (simp_all add: startsWith_def js_def)
  from n have b: "\<not> startsWith (js ''/'' @ r) (js ''//'')"
    by (cases r) (simp_all add: startsWith_def js_def)
  have c: "startsWith (js ''/'' @ r) (js ''/'')" by (simp add: startsWith_def)
  from a b c show "resolveUrl (js ''/'' @ r) bo bp = bo @ js ''/'' @ r"
    by (simp add: resolveUrl_def)
next
  assume n: "\<not> startsWith r (js ''/'')" "\<not> startsWith r (js ''http://'')" "\<not> startsWith r (js ''https://'')"
  from n(1) have "\<not> startsWith r (js ''//'')"
    by (cases r) (simp_all add: startsWith_def js_def)
  with n show "resolveUrl r bo bp = bo @ bp @ r" by (simp add: resolveUrl_def)
qed

subsection \<open>The \<open>Response\<close> constructor\<close>

text \<open>
  Where the Workers script calls the constructor with a literal status, it does not
  throw, and the \<open>Content-Type\<close> that the script gives is the one of the response.
\<close>

lemma responseThrows_literal:
  "responseThrows NoBody 204 = None"
  "responseThrows b 200 = None"
  "responseThrows b 400 = None"
  "responseThrows b 502 = None"
  by (simp_all add: responseThrows_def nullBodyStatus_def isString_def)

lemma status_newResponse [simp]: "status (newResponse b st stText hs) = st"
  by (simp add: newResponse_def)

lemma body_newResponse [simp]: "body (newResponse b st stText hs) = b"
  by (simp add: newResponse_def)

lemma statusText_newResponse [simp]: "statusText (newResponse b st stText hs) = stText"
  by (simp add: newResponse_def)

lemma newHeaders_keeps:
  "h n \<noteq> None \<Longrightarrow> foldl (\<lambda>h (name, val). headers_set h name val) h init n \<noteq> None"
proof (induction init arbitrary: h)
  case Nil
  then show ?case by simp
next
  case (Cons e init)
  obtain name val where e: "e = (name, val)" by (cases e)
  from Cons.prems have "headers_set h name val n \<noteq> None" by (simp add: headers_set_def)
  with Cons.IH [of "headers_set h name val"] e show ?case by simp
qed

lemma newHeaders_has_first: "headers_has (newHeaders ((name, val) # init)) name"
proof -
  have "headers_set Map.empty name val (toLowerCase name) \<noteq> None" by (simp add: headers_set_def)
  with newHeaders_keeps [of "headers_set Map.empty name val" "toLowerCase name" init]
  show ?thesis by (simp add: headers_has_def newHeaders_def)
qed

lemma newResponse_typed:
  "newResponse b st stText (newHeaders ((js ''Content-Type'', val) # init))
     = \<lparr>status = st, statusText = stText,
        headers = newHeaders ((js ''Content-Type'', val) # init), body = b\<rparr>"
  by (simp add: newResponse_def newHeaders_has_first)

lemma newResponse_null:
  "newResponse NoBody st stText hs = \<lparr>status = st, statusText = stText, headers = hs, body = NoBody\<rparr>"
  "newResponse Piped st stText hs = \<lparr>status = st, statusText = stText, headers = hs, body = Piped\<rparr>"
  by (simp_all add: newResponse_def isString_def)

lemma errorResponse_record:
  "errorResponse err st =
     \<lparr>status = st, statusText = [],
      headers = newHeaders ((js ''Content-Type'', js ''application/json; charset=utf-8'') # CORS_HEADERS),
      body = ErrorJson err\<rparr>"
  by (simp add: errorResponse_def newResponse_typed)

text \<open>
  The health check has no \<open>Content-Type\<close> of its own and gets the one of a string
  body. A playlist that the upstream answers with status 204 or 205 makes the constructor
  throw, and the \<open>catch\<close> answers 502.
\<close>

lemma handleRequest_health:
  "reqMethod req \<noteq> js ''OPTIONS'' \<Longrightarrow> pathname (reqUrl req) = js ''/health'' \<Longrightarrow>
   handleRequest parseURL fetch req =
     \<lparr>status = 200, statusText = [],
      headers = headers_set (newHeaders CORS_HEADERS) (js ''content-type'') (js ''text/plain;charset=UTF-8''),
      body = Text (js ''OK'')\<rparr>"
  by (simp add: handleRequest_def newResponse_def isString_def Let_def newHeaders_def CORS_HEADERS_def
      header_eval)

lemma handleProxyRequest_null_body:
  assumes "\<not> startsWith raw currentOrigin" and "testHttpScheme raw"
    and "parseURL raw = Some targetURL" and "endsWith (pathname targetURL) (js ''.m3u8'')"
    and "fetch \<lparr>prUrl = href targetURL, prMethod = reqMethod req,
                 prHeaders = upstreamHeaders (reqHeaders req) targetURL,
                 prBody = (reqMethod req \<noteq> js ''GET'' \<and> reqMethod req \<noteq> js ''HEAD'')\<rparr>
         = Resolved res"
    and "upStatus res = 204 \<or> upStatus res = 205"
  shows "status (handleProxyRequest parseURL fetch req raw currentOrigin) = 502"
  using assms
  by (auto simp: handleProxyRequest_def catchError_def responseThrows_def nullBodyStatus_def
      isString_def errorResponse_record Let_def split: sum.splits)

subsection \<open>Names outside the exclusion set are passed through\<close>

text \<open>
  Under a name that is not excluded the response has what the upstream sent last under
  it; the Node object has the fixed CORS value where the upstream sent nothing under the
  very key.
\<close>

lemma copied_passed:
  "n \<notin> set excludeHeaders \<Longrightarrow>
   foldl (\<lambda>h (key, val). if toLowerCase key \<notin> set excludeHeaders then headers_set h key val else h)
     h entries n
   = (case map_of (rev (map (\<lambda>(key, val). (toLowerCase key, val)) entries)) n of
        Some val \<Rightarrow> Some val | None \<Rightarrow> h n)"
proof (induction entries arbitrary: h)
  case Nil
  show ?case by simp
next
  case (Cons e entries)
  obtain key val where e: "e = (key, val)" by (cases e)
  show ?case
  proof (cases "toLowerCase key = n")
    case True
    with Cons e show ?thesis
      by (simp add: headers_set_def map_add_def split: option.splits)
  next
    case False
    with Cons e show ?thesis
      by (simp add: headers_set_def map_add_def split: option.splits)
  qed
qed

lemma responseHeaders_passed:
  assumes "toLowerCase name \<notin> set excludeHeaders"
  shows "headers_get (responseHeaders entries) name
         = map_of (rev (map (\<lambda>(key, val). (toLowerCase key, val)) entries)) (toLowerCase name)"
proof -
  from assms have n: "toLowerCase name \<noteq> js ''access-control-max-age''"
    "toLowerCase name \<noteq> js ''access-control-expose-headers''"
    "toLowerCase name \<noteq> js ''access-control-allow-headers''"
    "toLowerCase name \<noteq> js ''access-control-allow-methods''"
    "toLowerCase name \<noteq> js ''access-control-allow-origin''"
    by (auto simp: excludeHeaders_def)
  show ?thesis
    unfolding headers_get_def responseHeaders_def Let_def cors_over
    using n by (simp add: copied_passed [OF assms] split: option.splits)
qed

lemma copied_passed_node:
  "toLowerCase name \<notin> set EXCLUDE_HEADERS \<Longrightarrow>
   foldl (\<lambda>h (key, val). if toLowerCase key \<notin> set EXCLUDE_HEADERS then h(key \<mapsto> val) else h)
     h entries name
   = (case map_of (rev entries) name of Some val \<Rightarrow> Some val | None \<Rightarrow> h name)"
proof (induction entries arbitrary: h)
  case Nil
  show ?case by simp
next
  case (Cons e entries)
  obtain key val where e: "e = (key, val)" by (cases e)
  show ?case
  proof (cases "key = name")
    case True
    with Cons e show ?thesis
      by (simp add: map_add_def split: option.splits)
  next
    case False
    with Cons e show ?thesis
      by (simp add: map_add_def split: option.splits)
  qed
qed

lemma responseHeaders_node_passed:
  assumes "toLowerCase name \<notin> set EXCLUDE_HEADERS"
  shows "responseHeaders_node entries name
         = (case map_of (rev entries) name of Some val \<Rightarrow> Some val
            | None \<Rightarrow> objectOf CORS_HEADERS name)"
  unfolding responseHeaders_node_def using assms by (rule copied_passed_node)

subsection \<open>Events of the Node upstream request\<close>

lemma firstAnswer_timeouts: "firstAnswer targetURL req (replicate n TimeoutEvent) = None"
  by (induction n) (simp_all add: proxyReq_emit_def)

lemmas string_eval = js_def startsWith_def trim_def isWhiteSpace_def
lemmas encode_eval = uriUnescaped_def isTrailSurrogate_def isLeadSurrogate_def
  percentCodePoint_def utf8_def percentOctet_def hexDigit_def surrogatePairToCodePoint_def

lemma cdnBase_basePath: "basePathOf cdnBase = js ''/videos/abc/''"
  by (simp add: basePathOf_def cdnBase_def lastIndexOf_def substring0_def js_def)

lemma rewriteM3u8_media_lines:
  assumes "wellFormed content" "wellFormed (origin baseUrl)" "wellFormed (pathname baseUrl)"
  shows "\<exists>outs. rewriteM3u8 content baseUrl proxyOrigin = Inr (join outs)
           \<and> length outs = length (split content)
           \<and> (\<forall>i<length outs.
                 trim (split content ! i) \<noteq> [] \<and> \<not> startsWith (trim (split content ! i)) (js ''#'')
                 \<longrightarrow> (\<exists>enc. encodeURIComponent
                               (resolveUrl (trim (split content ! i)) (origin baseUrl)
                                  (basePathOf baseUrl)) = Inr enc
                           \<and> outs ! i = proxyOrigin @ js ''/?url='' @ enc))"
proof -
  let ?bo = "origin baseUrl" and ?bp = "basePathOf baseUrl"
  from rewriteM3u8_success [OF assms, of proxyOrigin] obtain outs
    where m: "mapE (rewriteLine ?bo ?bp proxyOrigin) (split content) = Inr outs"
      and r: "rewriteM3u8 content baseUrl proxyOrigin = Inr (join outs)" by blast
  from m have len: "length outs = length (split content)" by (rule mapE_Inr_length)
  from assms(3) have bp: "wellFormed ?bp" by (rule wellFormed_basePathOf)
  have "\<exists>enc. encodeURIComponent (resolveUrl (trim (split content ! i)) ?bo ?bp) = Inr enc
              \<and> outs ! i = proxyOrigin @ js ''/?url='' @ enc"
    if i: "i < length outs"
      and media: "trim (split content ! i) \<noteq> [] \<and> \<not> startsWith (trim (split content ! i)) (js ''#'')"
    for i
  proof -
    let ?l = "split content ! i"
    from i len have il: "i < length (split content)" by simp
    then have "?l \<in> set (split content)" by simp
    with assms(1) have "wellFormed ?l" by (rule wellFormed_split)
    then have "wellFormed (trim ?l)" by (rule wellFormed_trim)
    from proxied_success [OF this assms(2) bp, of proxyOrigin] obtain enc
      where e: "encodeURIComponent (resolveUrl (trim ?l) ?bo ?bp) = Inr enc"
        and p: "proxied ?bo ?bp proxyOrigin (trim ?l) = Inr (proxyOrigin @ js ''/?url='' @ enc)"
      by blast
    from media have "rewriteLine ?bo ?bp proxyOrigin ?l = proxied ?bo ?bp proxyOrigin (trim ?l)"
      by (intro rewriteLine_media) simp_all
    moreover from m il have "rewriteLine ?bo ?bp proxyOrigin ?l = Inr (outs ! i)"
      by (rule mapE_Inr_nth)
    ultimately have "outs ! i = proxyOrigin @ js ''/?url='' @ enc" using p by simp
    with e show ?thesis by blast
  qed
  with r len show ?thesis by blast
qed

section \<open>Claims about the playlist rewriter\<close>

text \<open>
  C1. In a playlist that is well formed UTF-16, fetched from a base URL whose origin and
  path are well formed, every line whose trimmed form is neither empty nor starts with
  \<open>#\<close> is replaced by \<open>proxyOrigin + "/?url=" + encodeURIComponent(absoluteUrl)\<close>,
  where \<open>absoluteUrl\<close> is \<open>resolveUrl\<close> of the trimmed line: the output is the
  line-feed join of as many lines as the input has, and its \<open>i\<close>-th line is that
  string whenever the \<open>i\<close>-th input line is a media reference. The encoding of such
  a reference never raises. \<open>resolveUrl\<close> returns a reference that starts with
  \<open>http://\<close> or \<open>https://\<close> as it is, puts \<open>https:\<close> before one that starts
  with \<open>//\<close>, the base origin before one that starts with a single \<open>/\<close>, and the
  base origin and the base path before any other; the base path is the path of the base
  URL up to and with its last \<open>/\<close>, and is empty when that path has none.
\<close>

theorem rewriteM3u8_media_reference:
  assumes "wellFormed content" "wellFormed (origin baseUrl)" "wellFormed (pathname baseUrl)"
  shows "(\<exists>outs. rewriteM3u8 content baseUrl proxyOrigin = Inr (join outs)
           \<and> length outs = length (split content)
           \<and> (\<forall>i<length outs.
                 trim (split content ! i) \<noteq> [] \<and> \<not> startsWith (trim (split content ! i)) (js ''#'')
                 \<longrightarrow> (\<exists>enc. encodeURIComponent
                               (resolveUrl (trim (split content ! i)) (origin baseUrl)
                                  (basePathOf baseUrl)) = Inr enc
                           \<and> outs ! i = proxyOrigin @ js ''/?url='' @ enc)))
       \<and> (\<forall>r. resolveUrl (js ''http://'' @ r) (origin baseUrl) (basePathOf baseUrl)
                  = js ''http://'' @ r
              \<and> resolveUrl (js ''https://'' @ r) (origin baseUrl) (basePathOf baseUrl)
                  = js ''https://'' @ r
              \<and> resolveUrl (js ''//'' @ r) (origin baseUrl) (basePathOf baseUrl)
                  = js ''https://'' @ r)
       \<and> (\<forall>r. \<not> startsWith r (js ''/'') \<longrightarrow>
              resolveUrl (js ''/'' @ r) (origin baseUrl) (basePathOf baseUrl)
                = origin baseUrl @ js ''/'' @ r)
       \<and> (\<forall>r. \<not> startsWith r (js ''/'') \<and> \<not> startsWith r (js ''http://'')
                \<and> \<not> startsWith r (js ''https://'') \<longrightarrow>
              resolveUrl r (origin baseUrl) (basePathOf baseUrl)
                = origin baseUrl @ basePathOf baseUrl @ r)
       \<and> (\<forall>d f. pathname baseUrl = d @ js ''/'' @ f \<and> 0x2F \<notin> set f \<longrightarrow>
              basePathOf baseUrl = d @ js ''/'')
       \<and> (0x2F \<notin> set (pathname baseUrl) \<longrightarrow> basePathOf baseUrl = [])"
proof (intro conjI allI impI)
  show "\<exists>outs. rewriteM3u8 content baseUrl proxyOrigin = Inr (join outs)
           \<and> length outs = length (split content)
           \<and> (\<forall>i<length outs.
                 trim (split content ! i) \<noteq> [] \<and> \<not> startsWith (trim (split content ! i)) (js ''#'')
                 \<longrightarrow> (\<exists>enc. encodeURIComponent
                               (resolveUrl (trim (split content ! i)) (origin baseUrl)
                                  (basePathOf baseUrl)) = Inr enc
                           \<and> outs ! i = proxyOrigin @ js ''/?url='' @ enc))"
    using assms by (rule rewriteM3u8_media_lines)
next
  fix d f
  assume "pathname baseUrl = d @ js ''/'' @ f \<and> 0x2F \<notin> set f"
  then have "pathname baseUrl = d @ [0x2F] @ f" and "0x2F \<notin> set f" by (simp_all add: js_def)
  then have "basePathOf baseUrl = d @ [0x2F]" by (rule basePathOf_dir)
  then show "basePathOf baseUrl = d @ js ''/''" by (simp add: js_def)
next
  assume "0x2F \<notin> set (pathname baseUrl)"
  then show "basePathOf baseUrl = []" by (rule basePathOf_none)
qed (simp_all add: resolveUrl_classes)

text \<open>
  The instance of the specification: with base
  \<open>https://cdn.example.com/videos/abc/index.m3u8\<close> the playlist \<open>seg001.ts\<close>
  is rewritten, for every proxy origin, to the proxy origin followed by
  \<open>/?url=https%3A%2F%2Fcdn.example.com%2Fvideos%2Fabc%2Fseg001.ts\<close>.
\<close>

theorem rewriteM3u8_media_reference_witness:
  "\<forall>proxyOrigin.
     wellFormed (js ''seg001.ts'') \<and> wellFormed (origin cdnBase) \<and> wellFormed (pathname cdnBase)
     \<and> rewriteM3u8 (js ''seg001.ts'') cdnBase proxyOrigin =
         Inr (proxyOrigin @ js ''/?url=https%3A%2F%2Fcdn.example.com%2Fvideos%2Fabc%2Fseg001.ts'')"
proof
  fix proxyOrigin
  let ?c = "js ''seg001.ts''"
  have wf: "wellFormed ?c" "wellFormed (origin cdnBase)" "wellFormed (pathname cdnBase)"
    by (simp_all add: cdnBase_def wellFormed_js)
  have sp: "split ?c = [?c]" by (simp add: js_def)
  have tr: "trim ?c = ?c" by (simp add: string_eval)
  have media: "trim ?c \<noteq> [] \<and> \<not> startsWith (trim ?c) (js ''#'')"
    unfolding tr by (simp add: string_eval)
  have rs: "resolveUrl ?c (origin cdnBase) (basePathOf cdnBase)
            = js ''https://cdn.example.com/videos/abc/seg001.ts''"
    unfolding cdnBase_basePath by (simp add: resolveUrl_def cdnBase_def string_eval)
  have en: "encodeURIComponent (js ''https://cdn.example.com/videos/abc/seg001.ts'')
            = Inr (js ''https%3A%2F%2Fcdn.example.com%2Fvideos%2Fabc%2Fseg001.ts'')"
    by (simp add: js_def encode_eval)
  from rewriteM3u8_media_reference [OF wf, of proxyOrigin, THEN conjunct1] obtain outs
    where r: "rewriteM3u8 ?c cdnBase proxyOrigin = Inr (join outs)"
      and len: "length outs = length (split ?c)"
      and all: "\<forall>i<length outs.
                 trim (split ?c ! i) \<noteq> [] \<and> \<not> startsWith (trim (split ?c ! i)) (js ''#'')
                 \<longrightarrow> (\<exists>enc. encodeURIComponent
                               (resolveUrl (trim (split ?c ! i)) (origin cdnBase)
                                  (basePathOf cdnBase)) = Inr enc
                           \<and> outs ! i = proxyOrigin @ js ''/?url='' @ enc)"
    by blast
  from len have l1: "length outs = 1" unfolding sp by simp
  then obtain x where outs: "outs = [x]" by (cases outs) auto
  from all l1 media have "\<exists>enc. encodeURIComponent
                               (resolveUrl (trim (split ?c ! 0)) (origin cdnBase)
                                  (basePathOf cdnBase)) = Inr enc
                           \<and> outs ! 0 = proxyOrigin @ js ''/?url='' @ enc"
    unfolding sp by simp
  then have "x = proxyOrigin @ js ''/?url='' @ js ''https%3A%2F%2Fcdn.example.com%2Fvideos%2Fabc%2Fseg001.ts''"
    unfolding sp outs by (simp add: tr rs en)
  then have "join outs = proxyOrigin @ js ''/?url=https%3A%2F%2Fcdn.example.com%2Fvideos%2Fabc%2Fseg001.ts''"
    unfolding outs by (simp add: js_def)
  with r wf show "wellFormed ?c \<and> wellFormed (origin cdnBase) \<and> wellFormed (pathname cdnBase)
     \<and> rewriteM3u8 ?c cdnBase proxyOrigin =
         Inr (proxyOrigin @ js ''/?url=https%3A%2F%2Fcdn.example.com%2Fvideos%2Fabc%2Fseg001.ts'')"
    by simp
qed




text \<open>
  C6. A line whose trimmed form is empty or starts with \<open>#\<close> and that does not
  contain \<open>URI="\<close> is the same line in the output (first part, for a well formed
  playlist of any lines); a playlist made only of such lines is returned as it is, so that
  rewriting it again changes nothing (second part).
\<close>

theorem rewriteM3u8_directives_unchanged:
  "(wellFormed content \<and> wellFormed (origin baseUrl) \<and> wellFormed (pathname baseUrl) \<longrightarrow>
      (\<exists>outs. rewriteM3u8 content baseUrl proxyOrigin = Inr (join outs)
         \<and> length outs = length (split content)
         \<and> (\<forall>i<length outs.
               (trim (split content ! i) = [] \<or> startsWith (trim (split content ! i)) (js ''#''))
               \<and> \<not> includesStr (split content ! i) (js ''URI='' @ [dquote])
               \<longrightarrow> outs ! i = split content ! i)))
   \<and> ((\<forall>l\<in>set (split content).
          (trim l = [] \<or> startsWith (trim l) (js ''#''))
          \<and> \<not> includesStr l (js ''URI='' @ [dquote]))
        \<longrightarrow> rewriteM3u8 content baseUrl proxyOrigin = Inr content)"
proof (intro conjI impI)
  let ?bo = "origin baseUrl" and ?bp = "basePathOf baseUrl"
  assume "wellFormed content \<and> wellFormed (origin baseUrl) \<and> wellFormed (pathname baseUrl)"
  then have wf: "wellFormed content" "wellFormed (origin baseUrl)" "wellFormed (pathname baseUrl)"
    by simp_all
  from rewriteM3u8_success [OF wf, of proxyOrigin] obtain outs
    where m: "mapE (rewriteLine ?bo ?bp proxyOrigin) (split content) = Inr outs"
      and r: "rewriteM3u8 content baseUrl proxyOrigin = Inr (join outs)" by blast
  from m have len: "length outs = length (split content)" by (rule mapE_Inr_length)
  have "outs ! i = split content ! i"
    if i: "i < length outs"
      and c: "(trim (split content ! i) = [] \<or> startsWith (trim (split content ! i)) (js ''#''))
               \<and> \<not> includesStr (split content ! i) (js ''URI='' @ [dquote])"
    for i
  proof -
    from i len have "i < length (split content)" by simp
    with m have "rewriteLine ?bo ?bp proxyOrigin (split content ! i) = Inr (outs ! i)"
      by (rule mapE_Inr_nth)
    moreover from c have "rewriteLine ?bo ?bp proxyOrigin (split content ! i) = Inr (split content ! i)"
      by (intro rewriteLine_passthrough) simp_all
    ultimately show ?thesis by simp
  qed
  with r len show "\<exists>outs. rewriteM3u8 content baseUrl proxyOrigin = Inr (join outs)
         \<and> length outs = length (split content)
         \<and> (\<forall>i<length outs.
               (trim (split content ! i) = [] \<or> startsWith (trim (split content ! i)) (js ''#''))
               \<and> \<not> includesStr (split content ! i) (js ''URI='' @ [dquote])
               \<longrightarrow> outs ! i = split content ! i)"
    by blast
next
  assume a: "\<forall>l\<in>set (split content).
          (trim l = [] \<or> startsWith (trim l) (js ''#''))
          \<and> \<not> includesStr l (js ''URI='' @ [dquote])"
  have "\<forall>l\<in>set (split content).
          rewriteLine (origin baseUrl) (basePathOf baseUrl) proxyOrigin l = Inr l"
    using a rewriteLine_passthrough by blast
  then have "mapE (rewriteLine (origin baseUrl) (basePathOf baseUrl) proxyOrigin) (split content)
             = Inr (split content)"
    by (rule mapE_id)
  then show "rewriteM3u8 content baseUrl proxyOrigin = Inr content"
    by (simp add: rewriteM3u8_def Let_def join_split)
qed

text \<open>A playlist of two directives around an empty line.\<close>

theorem rewriteM3u8_directives_unchanged_witness:
  "\<forall>proxyOrigin.
     split (js ''#EXTM3U'' @ [LF, LF] @ js ''#EXT-X-ENDLIST'')
       = [js ''#EXTM3U'', [], js ''#EXT-X-ENDLIST'']
     \<and> rewriteM3u8 (js ''#EXTM3U'' @ [LF, LF] @ js ''#EXT-X-ENDLIST'') cdnBase proxyOrigin
         = Inr (js ''#EXTM3U'' @ [LF, LF] @ js ''#EXT-X-ENDLIST'')"
proof
  fix proxyOrigin
  let ?c = "js ''#EXTM3U'' @ [LF, LF] @ js ''#EXT-X-ENDLIST''"
  have sp: "split ?c = [js ''#EXTM3U'', [], js ''#EXT-X-ENDLIST'']" by (simp add: js_def)
  have a: "\<forall>l\<in>set (split ?c).
          (trim l = [] \<or> startsWith (trim l) (js ''#''))
          \<and> \<not> includesStr l (js ''URI='' @ [dquote])"
    unfolding sp by (simp add: string_eval)
  with rewriteM3u8_directives_unchanged [of ?c cdnBase proxyOrigin]
  have "rewriteM3u8 ?c cdnBase proxyOrigin = Inr ?c" by blast
  with sp show "split ?c = [js ''#EXTM3U'', [], js ''#EXT-X-ENDLIST'']
     \<and> rewriteM3u8 ?c cdnBase proxyOrigin = Inr ?c"
    by simp
qed

text \<open>
  C10. For a well formed playlist, a base URL with well formed origin and path, and a proxy
  origin without a line feed, the rewriter returns a text that has, split at line feeds, as
  many lines as the input.
\<close>

theorem rewriteM3u8_line_count:
  assumes "wellFormed content" "wellFormed (origin baseUrl)" "wellFormed (pathname baseUrl)"
    and "LF \<notin> set proxyOrigin"
  shows "\<exists>out. rewriteM3u8 content baseUrl proxyOrigin = Inr out
           \<and> length (split out) = length (split content)"
proof -
  let ?bo = "origin baseUrl" and ?bp = "basePathOf baseUrl"
  from rewriteM3u8_success [OF assms(1-3), of proxyOrigin] obtain outs
    where m: "mapE (rewriteLine ?bo ?bp proxyOrigin) (split content) = Inr outs"
      and r: "rewriteM3u8 content baseUrl proxyOrigin = Inr (join outs)" by blast
  from m have len: "length outs = length (split content)" by (rule mapE_Inr_length)
  with split_not_Nil [of content] have ne: "outs \<noteq> []" by auto
  have "\<forall>l\<in>set outs. LF \<notin> set l"
  proof
    fix l assume "l \<in> set outs"
    then obtain i where i: "i < length outs" and l: "l = outs ! i"
      by (auto simp: in_set_conv_nth)
    from i len have il: "i < length (split content)" by simp
    with m have "rewriteLine ?bo ?bp proxyOrigin (split content ! i) = Inr (outs ! i)"
      by (rule mapE_Inr_nth)
    moreover from il have "LF \<notin> set (split content ! i)"
      by (intro split_no_LF [of _ content]) simp
    ultimately show "LF \<notin> set l" unfolding l using assms(4) by (rule rewriteLine_no_LF)
  qed
  with ne have "split (join outs) = outs" by (rule split_join)
  with r len show ?thesis by simp
qed

text \<open>A three-line playlist: a directive, a media reference and the empty last line.\<close>

theorem rewriteM3u8_line_count_witness:
  "wellFormed (js ''#EXTM3U'' @ [LF] @ js ''seg001.ts'' @ [LF])
   \<and> wellFormed (origin cdnBase) \<and> wellFormed (pathname cdnBase)
   \<and> LF \<notin> set (js ''https://proxy.example'')
   \<and> length (split (js ''#EXTM3U'' @ [LF] @ js ''seg001.ts'' @ [LF])) = 3
   \<and> (\<exists>out. rewriteM3u8 (js ''#EXTM3U'' @ [LF] @ js ''seg001.ts'' @ [LF]) cdnBase
                  (js ''https://proxy.example'') = Inr out
            \<and> length (split out) = 3)"
proof -
  let ?c = "js ''#EXTM3U'' @ [LF] @ js ''seg001.ts'' @ [LF]"
  have wfc: "wellFormed ?c"
    using LF_plain by (simp add: wellFormed_append wellFormed_js wellFormed_Cons)
  have wf: "wellFormed (origin cdnBase)" "wellFormed (pathname cdnBase)"
    by (simp_all add: cdnBase_def wellFormed_js)
  have po: "LF \<notin> set (js ''https://proxy.example'')" by (simp add: js_def)
  have n: "length (split ?c) = 3" by (simp add: js_def)
  from rewriteM3u8_line_count [OF wfc wf po] wfc wf po n show ?thesis by simp
qed

section \<open>Claims about validation and headers\<close>

text \<open>
  C3 (as the code has it). Whatever the upstream sent, the response headers hold under a
  name of the exclusion set, compared in lower case, what the fixed CORS headers hold
  under it: the fixed value for each of the five CORS names, and nothing for
  \<open>content-encoding\<close>, \<open>transfer-encoding\<close>, \<open>connection\<close>, \<open>keep-alive\<close>
  and \<open>access-control-allow-credentials\<close>. This holds for the Workers script
  (\<open>excludeHeaders\<close>, a \<open>Headers\<close> object) and for the Node script
  (\<open>EXCLUDE_HEADERS\<close>, a plain object). The exclusion sets name six
  \<open>access-control-\<close> headers, not every name with that prefix.
\<close>

theorem responseHeaders_policy:
  "(toLowerCase name \<in> set excludeHeaders \<longrightarrow>
      headers_get (responseHeaders entries) name = headers_get (newHeaders CORS_HEADERS) name)
   \<and> (toLowerCase name \<in> set EXCLUDE_HEADERS \<longrightarrow>
      responseHeaders_node entries name = objectOf CORS_HEADERS name)
   \<and> (toLowerCase name \<in> set [js ''content-encoding'', js ''transfer-encoding'', js ''connection'',
                                  js ''keep-alive'', js ''access-control-allow-credentials''] \<longrightarrow>
      headers_get (responseHeaders entries) name = None \<and> responseHeaders_node entries name = None)
   \<and> (\<forall>(cname, cval) \<in> set CORS_HEADERS.
      headers_get (responseHeaders entries) cname = Some cval
      \<and> responseHeaders_node entries cname = Some cval)"
proof (intro conjI impI)
  assume "toLowerCase name \<in> set excludeHeaders"
  then show "headers_get (responseHeaders entries) name = headers_get (newHeaders CORS_HEADERS) name"
    by (rule responseHeaders_excluded)
next
  assume "toLowerCase name \<in> set EXCLUDE_HEADERS"
  then show "responseHeaders_node entries name = objectOf CORS_HEADERS name"
    by (rule responseHeaders_node_excluded)
next
  assume a: "toLowerCase name \<in> set [js ''content-encoding'', js ''transfer-encoding'',
               js ''connection'', js ''keep-alive'', js ''access-control-allow-credentials'']"
  note t = transfer_names_excluded [OF a]
  define n where "n = toLowerCase name"
  from t(3) have "foldl (\<lambda>h (key, val). headers_set h key val) Map.empty CORS_HEADERS n = None"
    unfolding cors_over n_def [symmetric] by simp
  then have "headers_get (newHeaders CORS_HEADERS) name = None"
    by (simp add: headers_get_def newHeaders_def n_def)
  with responseHeaders_excluded [OF t(1), of entries]
  show "headers_get (responseHeaders entries) name = None" by simp
next
  assume a: "toLowerCase name \<in> set [js ''content-encoding'', js ''transfer-encoding'',
               js ''connection'', js ''keep-alive'', js ''access-control-allow-credentials'']"
  note t = transfer_names_excluded [OF a]
  have "objectOf CORS_HEADERS name = None"
  proof (rule ccontr)
    assume "objectOf CORS_HEADERS name \<noteq> None"
    then have "name \<in> fst ` set CORS_HEADERS"
      unfolding objectOf_CORS by (auto simp: CORS_HEADERS_def split: if_splits)
    then have "toLowerCase name \<in> toLowerCase ` fst ` set CORS_HEADERS" by (rule imageI)
    with t(3) show False unfolding CORS_names_lower by simp
  qed
  with responseHeaders_node_excluded [OF t(2), of entries]
  show "responseHeaders_node entries name = None" by simp
next
  have "headers_get (responseHeaders entries) cname = Some cval
        \<and> responseHeaders_node entries cname = Some cval"
    if m: "(cname, cval) \<in> set CORS_HEADERS" for cname cval
  proof -
    from CORS_fixed m have f: "toLowerCase cname \<in> set excludeHeaders"
      "toLowerCase cname \<in> set EXCLUDE_HEADERS"
      "headers_get (newHeaders CORS_HEADERS) cname = Some cval"
      "objectOf CORS_HEADERS cname = Some cval"
      by blast+
    from responseHeaders_excluded [OF f(1), of entries] f(3)
      responseHeaders_node_excluded [OF f(2), of entries] f(4)
    show ?thesis by simp
  qed
  then show "\<forall>(cname, cval) \<in> set CORS_HEADERS.
      headers_get (responseHeaders entries) cname = Some cval
      \<and> responseHeaders_node entries cname = Some cval"
    by blast
qed

text \<open>
  An upstream that sends \<open>content-encoding: gzip\<close> and its own
  \<open>access-control-allow-origin: null\<close>.
\<close>

theorem responseHeaders_policy_witness:
  "toLowerCase (js ''Content-Encoding'') \<in> set excludeHeaders
   \<and> toLowerCase (js ''Content-Encoding'') \<in> set EXCLUDE_HEADERS
   \<and> headers_get
        (responseHeaders
           [(js ''content-encoding'', js ''gzip''), (js ''access-control-allow-origin'', js ''null''),
            (js ''content-type'', js ''video/mp2t'')])
        (js ''Content-Encoding'') = None
   \<and> headers_get
        (responseHeaders
           [(js ''content-encoding'', js ''gzip''), (js ''access-control-allow-origin'', js ''null''),
            (js ''content-type'', js ''video/mp2t'')])
        (js ''Access-Control-Allow-Origin'') = Some (js ''*'')
   \<and> responseHeaders_node
        [(js ''content-encoding'', js ''gzip''), (js ''access-control-allow-origin'', js ''null''),
         (js ''content-type'', js ''video/mp2t'')]
        (js ''Access-Control-Allow-Origin'') = Some (js ''*'')"
proof -
  let ?e = "[(js ''content-encoding'', js ''gzip''), (js ''access-control-allow-origin'', js ''null''),
            (js ''content-type'', js ''video/mp2t'')]"
  have x: "toLowerCase (js ''Content-Encoding'') \<in> set excludeHeaders"
    "toLowerCase (js ''Content-Encoding'') \<in> set EXCLUDE_HEADERS"
    "toLowerCase (js ''Content-Encoding'')
       \<in> set [js ''content-encoding'', js ''transfer-encoding'', js ''connection'',
                js ''keep-alive'', js ''access-control-allow-credentials'']"
    by (simp_all add: excludeHeaders_def EXCLUDE_HEADERS_def lower_names)
  have c: "(js ''Access-Control-Allow-Origin'', js ''*'') \<in> set CORS_HEADERS"
    by (simp add: CORS_HEADERS_def)
  from responseHeaders_policy [of "js ''Content-Encoding''" ?e] x c show ?thesis by fastforce
qed

text \<open>
  A header of the upstream whose name starts with \<open>access-control-\<close> and that is in
  neither exclusion set reaches the client.
\<close>

theorem responseHeaders_policy_counterexample:
  "startsWith (js ''access-control-allow-private-network'') (js ''access-control-'')
   \<and> headers_get
        (responseHeaders [(js ''access-control-allow-private-network'', js ''true'')])
        (js ''access-control-allow-private-network'') = Some (js ''true'')
   \<and> responseHeaders_node [(js ''access-control-allow-private-network'', js ''true'')]
        (js ''access-control-allow-private-network'') = Some (js ''true'')"
  by (simp add: responseHeaders_def responseHeaders_node_def excludeHeaders_def EXCLUDE_HEADERS_def
      CORS_HEADERS_def objectOf_def header_eval startsWith_def Let_def)

text \<open>
  C7 (as the code has it). The request headers that the Workers script sends upstream are:
  \<open>referer\<close>, \<open>origin\<close> and \<open>user-agent\<close> as spoofed; \<open>range\<close> and
  \<open>accept-language\<close> when the client sent them with a value that is not empty;
  \<open>accept\<close> as the client sent it when that value is not empty, and \<open>*/*\<close>
  otherwise; and no other header. The \<open>headers\<close> object of the Node script holds the
  same under every key but \<open>Accept\<close>: the three spoofed headers, and \<open>range\<close>,
  \<open>accept\<close> and \<open>accept-language\<close> when the client sent them with a value that
  is not empty.
\<close>

theorem upstreamHeaders_allow_list:
  "upstreamHeaders clientHeaders targetURL name =
     (if name = js ''referer'' then Some (origin targetURL @ js ''/'')
      else if name = js ''origin'' then Some (origin targetURL)
      else if name = js ''user-agent'' then Some USER_AGENT
      else if name = js ''range'' \<or> name = js ''accept-language''
        then (if truthy (clientHeaders name) then clientHeaders name else None)
      else if name = js ''accept''
        then (if truthy (clientHeaders name) then clientHeaders name else Some (js ''*/*''))
      else None)
   \<and> (name \<noteq> js ''Accept'' \<longrightarrow>
        proxyOptions_headers clientHeaders targetURL name =
          (if name = js ''Referer'' then Some (origin targetURL @ js ''/'')
           else if name = js ''Origin'' then Some (origin targetURL)
           else if name = js ''User-Agent'' then Some USER_AGENT
           else if name = js ''range'' \<or> name = js ''accept'' \<or> name = js ''accept-language''
             then (if truthy (clientHeaders name) then clientHeaders name else None)
           else None))"
proof (intro conjI impI)
  show "upstreamHeaders clientHeaders targetURL name =
     (if name = js ''referer'' then Some (origin targetURL @ js ''/'')
      else if name = js ''origin'' then Some (origin targetURL)
      else if name = js ''user-agent'' then Some USER_AGENT
      else if name = js ''range'' \<or> name = js ''accept-language''
        then (if truthy (clientHeaders name) then clientHeaders name else None)
      else if name = js ''accept''
        then (if truthy (clientHeaders name) then clientHeaders name else Some (js ''*/*''))
      else None)"
    by (auto simp: upstreamHeaders_def copyHeaders_def Let_def header_eval truthy_the [symmetric])
next
  assume "name \<noteq> js ''Accept''"
  then show "proxyOptions_headers clientHeaders targetURL name =
          (if name = js ''Referer'' then Some (origin targetURL @ js ''/'')
           else if name = js ''Origin'' then Some (origin targetURL)
           else if name = js ''User-Agent'' then Some USER_AGENT
           else if name = js ''range'' \<or> name = js ''accept'' \<or> name = js ''accept-language''
             then (if truthy (clientHeaders name) then clientHeaders name else None)
           else None)"
    by (auto simp: proxyOptions_headers_def Let_def truthy_the [symmetric])
qed

text \<open>A client that sends \<open>range\<close> and a cookie, and no \<open>accept\<close>.\<close>

theorem upstreamHeaders_allow_list_witness:
  "js ''range'' \<noteq> js ''Accept'' \<and> js ''cookie'' \<noteq> js ''Accept''
   \<and> upstreamHeaders [js ''range'' \<mapsto> js ''bytes=0-1023'', js ''cookie'' \<mapsto> js ''sid=1'']
         cdnBase (js ''range'') = Some (js ''bytes=0-1023'')
   \<and> upstreamHeaders [js ''range'' \<mapsto> js ''bytes=0-1023'', js ''cookie'' \<mapsto> js ''sid=1'']
         cdnBase (js ''cookie'') = None
   \<and> upstreamHeaders [js ''range'' \<mapsto> js ''bytes=0-1023'', js ''cookie'' \<mapsto> js ''sid=1'']
         cdnBase (js ''accept'') = Some (js ''*/*'')
   \<and> proxyOptions_headers [js ''range'' \<mapsto> js ''bytes=0-1023'', js ''cookie'' \<mapsto> js ''sid=1'']
         cdnBase (js ''range'') = Some (js ''bytes=0-1023'')
   \<and> proxyOptions_headers [js ''range'' \<mapsto> js ''bytes=0-1023'', js ''cookie'' \<mapsto> js ''sid=1'']
         cdnBase (js ''cookie'') = None"
proof -
  let ?c = "[js ''range'' \<mapsto> js ''bytes=0-1023'', js ''cookie'' \<mapsto> js ''sid=1'']"
  from upstreamHeaders_allow_list [of ?c cdnBase "js ''range''"]
    upstreamHeaders_allow_list [of ?c cdnBase "js ''cookie''"]
    upstreamHeaders_allow_list [of ?c cdnBase "js ''accept''"]
  show ?thesis by simp
qed

text \<open>
  A client that sends \<open>accept\<close> with an empty value: the header is supplied, it is
  not copied, and the default takes its place.
\<close>

theorem upstreamHeaders_allow_list_counterexample:
  "[js ''accept'' \<mapsto> []] (js ''accept'') = Some []
   \<and> upstreamHeaders [js ''accept'' \<mapsto> []] cdnBase (js ''accept'') = Some (js ''*/*'')"
  by (simp add: upstreamHeaders_def copyHeaders_def Let_def header_eval)

text \<open>
  In the Node script the test reads the key \<open>Accept\<close>, which nothing has set, while
  the client's header was copied under \<open>accept\<close>: the default is always added.
\<close>

lemma proxyOptions_headers_Accept:
  "proxyOptions_headers clientHeaders targetURL (js ''Accept'') = Some (js ''*/*'')"
  by (simp add: proxyOptions_headers_def Let_def)

text \<open>
  C9 (as the code has it). A request that is not \<open>OPTIONS\<close>, is not for
  \<open>/health\<close>, and whose \<open>url\<close> parameter is absent or empty is answered
  with status 200 and the help page, under the CORS headers, by both scripts.
\<close>

theorem missing_target_help_page:
  assumes "reqMethod req \<noteq> js ''OPTIONS''" and "pathname (reqUrl req) \<noteq> js ''/health''"
    and "\<not> truthy (searchParams (reqUrl req) (js ''url''))"
  shows "handleRequest parseURL fetch req =
           \<lparr>status = 200, statusText = [],
            headers = newHeaders ((js ''Content-Type'', js ''text/html; charset=utf-8'') # CORS_HEADERS),
            body = HelpPage (origin (reqUrl req))\<rparr>
         \<and> serverRequest ACCESS_PASSWORD parseURL req =
           Responded
             \<lparr>status = 200, statusText = [],
              headers = objectOf ((js ''Content-Type'', js ''text/html; charset=utf-8'') # CORS_HEADERS),
              body = HelpPage (js ''http://'' @ template (reqHeaders req (js ''host'')))\<rparr>"
  using assms by (simp add: handleRequest_def serverRequest_def newResponse_typed Let_def)

text \<open>\<open>GET /\<close> with no query.\<close>

theorem missing_target_help_page_witness:
  "reqMethod rootRequest \<noteq> js ''OPTIONS'' \<and> pathname (reqUrl rootRequest) \<noteq> js ''/health''
   \<and> searchParams (reqUrl rootRequest) (js ''url'') = None
   \<and> handleRequest exampleURL silentNetwork rootRequest =
         \<lparr>status = 200, statusText = [],
          headers = newHeaders ((js ''Content-Type'', js ''text/html; charset=utf-8'') # CORS_HEADERS),
          body = HelpPage (js ''https://proxy.example'')\<rparr>
   \<and> serverRequest [] exampleURL rootRequest =
         Responded
           \<lparr>status = 200, statusText = [],
            headers = objectOf ((js ''Content-Type'', js ''text/html; charset=utf-8'') # CORS_HEADERS),
            body = HelpPage (js ''http://proxy.example'')\<rparr>"
proof -
  have a: "reqMethod rootRequest \<noteq> js ''OPTIONS''" "pathname (reqUrl rootRequest) \<noteq> js ''/health''"
    "\<not> truthy (searchParams (reqUrl rootRequest) (js ''url''))"
    by (simp_all add: rootRequest_def)
  have b: "origin (reqUrl rootRequest) = js ''https://proxy.example''"
    "js ''http://'' @ template (reqHeaders rootRequest (js ''host'')) = js ''http://proxy.example''"
    "searchParams (reqUrl rootRequest) (js ''url'') = None"
    by (simp_all add: rootRequest_def template_def js_def)
  from missing_target_help_page [OF a, of exampleURL silentNetwork "[]"] a b show ?thesis by simp
qed

text \<open>The status of that answer is 200, where an error status was expected.\<close>

theorem missing_target_help_page_counterexample:
  "searchParams (reqUrl rootRequest) (js ''url'') = None
   \<and> status (handleRequest exampleURL silentNetwork rootRequest) = 200
   \<and> body (handleRequest exampleURL silentNetwork rootRequest) = HelpPage (js ''https://proxy.example'')"
  by (simp add: handleRequest_def rootRequest_def Let_def)

text \<open>
  C8 (as the code has it). A target that does not start with the proxy's origin, and that
  fails the test \<open>^https?://\<close> (ignoring case) or makes the URL parser throw, is
  answered by the Workers script with status 400 and the message \<open>Invalid target URL\<close>
  (the test fails) or \<open>Invalid URL format\<close> (the parser throws); \<open>handleRequest\<close>
  returns that answer for a request that carries the target. The Node script, with no
  password set, answers 400 \<open>Invalid URL\<close> when the parser throws.
\<close>

theorem invalid_target_rejected:
  assumes "\<not> startsWith raw currentOrigin"
    and "\<not> testHttpScheme raw \<or> parseURL raw = None"
  shows "handleProxyRequest parseURL fetch req raw currentOrigin =
           errorResponse
             (if \<not> testHttpScheme raw then js ''Invalid target URL'' else js ''Invalid URL format'')
             400
         \<and> status (handleProxyRequest parseURL fetch req raw currentOrigin) = 400
         \<and> (reqMethod req \<noteq> js ''OPTIONS'' \<and> pathname (reqUrl req) \<noteq> js ''/health''
              \<and> searchParams (reqUrl req) (js ''url'') = Some raw \<and> raw \<noteq> []
              \<and> currentOrigin = origin (reqUrl req)
            \<longrightarrow> handleRequest parseURL fetch req =
                  handleProxyRequest parseURL fetch req raw currentOrigin)
         \<and> (reqMethod req \<noteq> js ''OPTIONS'' \<and> pathname (reqUrl req) \<noteq> js ''/health''
              \<and> searchParams (reqUrl req) (js ''url'') = Some raw \<and> raw \<noteq> []
              \<and> parseURL raw = None
            \<longrightarrow> serverRequest [] parseURL req =
                  Responded \<lparr>status = 400, statusText = [], headers = objectOf CORS_HEADERS,
                             body = Text (js ''Invalid URL'')\<rparr>)"
  using assms
  by (auto simp: handleProxyRequest_def handleRequest_def serverRequest_def errorResponse_record Let_def)

text \<open>The target \<open>not-a-url\<close>.\<close>

theorem invalid_target_rejected_witness:
  "\<not> startsWith (js ''not-a-url'') (js ''https://proxy.example'')
   \<and> \<not> testHttpScheme (js ''not-a-url'')
   \<and> exampleURL (js ''not-a-url'') = None
   \<and> handleRequest exampleURL silentNetwork notUrlRequest
       = errorResponse (js ''Invalid target URL'') 400
   \<and> status (handleRequest exampleURL silentNetwork notUrlRequest) = 400
   \<and> serverRequest [] exampleURL notUrlRequest =
         Responded \<lparr>status = 400, statusText = [], headers = objectOf CORS_HEADERS,
                    body = Text (js ''Invalid URL'')\<rparr>"
proof -
  have a: "\<not> startsWith (js ''not-a-url'') (js ''https://proxy.example'')" by simp
  have t: "\<not> testHttpScheme (js ''not-a-url'')"
    by (simp add: testHttpScheme_def asciiLower_def js_def startsWith_def)
  have p: "exampleURL (js ''not-a-url'') = None" by (simp add: exampleURL_def)
  have b: "\<not> testHttpScheme (js ''not-a-url'') \<or> exampleURL (js ''not-a-url'') = None"
    using t by simp
  have d: "reqMethod notUrlRequest \<noteq> js ''OPTIONS''" "pathname (reqUrl notUrlRequest) \<noteq> js ''/health''"
    "searchParams (reqUrl notUrlRequest) (js ''url'') = Some (js ''not-a-url'')"
    "js ''not-a-url'' \<noteq> []" "js ''https://proxy.example'' = origin (reqUrl notUrlRequest)"
    by (simp_all add: notUrlRequest_def)
  from invalid_target_rejected
         [where raw = "js ''not-a-url''" and currentOrigin = "js ''https://proxy.example''"
            and parseURL = exampleURL and fetch = silentNetwork and req = notUrlRequest, OF a b]
       a t p d
  show ?thesis by (simp add: errorResponse_record)
qed

text \<open>
  A target that starts with the proxy's origin and is not a URL (its port is out of
  range): the loop check comes first, and the error is the loop's, not the format's.
\<close>

theorem invalid_target_rejected_counterexample:
  "exampleURL (js ''https://proxy.example:99999999'') = None
   \<and> startsWith (js ''https://proxy.example:99999999'') (origin (reqUrl badPortRequest))
   \<and> handleRequest exampleURL silentNetwork badPortRequest
       = errorResponse (js ''Loop detected: self-fetch blocked'') 400
   \<and> body (handleRequest exampleURL silentNetwork badPortRequest)
       \<noteq> ErrorJson (js ''Invalid URL format'')
   \<and> body (handleRequest exampleURL silentNetwork badPortRequest)
       \<noteq> ErrorJson (js ''Invalid target URL'')"
  by (simp add: exampleURL_def handleRequest_def handleProxyRequest_def badPortRequest_def
      errorResponse_record Let_def)

text \<open>
  The loop check of the Workers script: a target that starts with the proxy's own origin is
  answered 400, before the target is looked at any further.
\<close>

lemma handleProxyRequest_loop:
  "startsWith targetUrlParam currentOrigin \<Longrightarrow>
   handleProxyRequest parseURL fetch req targetUrlParam currentOrigin
     = errorResponse (js ''Loop detected: self-fetch blocked'') 400"
  by (simp add: handleProxyRequest_def)

lemma handleRequest_loop:
  assumes "reqMethod req \<noteq> js ''OPTIONS''" and "pathname (reqUrl req) \<noteq> js ''/health''"
    and "searchParams (reqUrl req) (js ''url'') = Some raw" and "raw \<noteq> []"
    and "startsWith raw (origin (reqUrl req))"
  shows "handleRequest parseURL fetch req = errorResponse (js ''Loop detected: self-fetch blocked'') 400"
    and "status (handleRequest parseURL fetch req) = 400"
  using assms by (simp_all add: handleRequest_def Let_def handleProxyRequest_loop errorResponse_record)

text \<open>
  C2. The Node script has no loop check. \<open>GET /?url=http://localhost:8080/health\<close>,
  sent to the server that listens on \<open>localhost:8080\<close>, names the server itself;
  the handler parses the target and issues the upstream request. The Workers script
  answers the same request with status 400 and \<open>Loop detected: self-fetch blocked\<close>.
\<close>

theorem serverRequest_self_fetch:
  "startsWith (js ''http://localhost:8080/health'')
     (js ''http://'' @ template (reqHeaders selfRequest (js ''host'')))
   \<and> serverRequest [] exampleURL selfRequest =
       Requested
         \<lparr>href = js ''http://localhost:8080/health'', protocol = js ''http:'',
          origin = js ''http://localhost:8080'', pathname = js ''/health'',
          searchParams = Map.empty\<rparr>
         \<lparr>poMethod = js ''GET'',
          poHeaders = [js ''Referer'' \<mapsto> js ''http://localhost:8080/'',
                       js ''Origin'' \<mapsto> js ''http://localhost:8080'',
                       js ''User-Agent'' \<mapsto> USER_AGENT, js ''Accept'' \<mapsto> js ''*/*''],
          poTimeout = 20000\<rparr>
   \<and> handleRequest exampleURL silentNetwork selfRequest
       = errorResponse (js ''Loop detected: self-fetch blocked'') 400"
proof (intro conjI)
  have "js ''http://'' @ template (reqHeaders selfRequest (js ''host'')) = js ''http://localhost:8080''"
    by (simp add: selfRequest_def template_def js_def)
  then show "startsWith (js ''http://localhost:8080/health'')
     (js ''http://'' @ template (reqHeaders selfRequest (js ''host'')))"
    by simp
next
  have o: "js ''http://localhost:8080'' @ js ''/'' = js ''http://localhost:8080/''"
    by (simp add: js_def)
  show "serverRequest [] exampleURL selfRequest =
       Requested
         \<lparr>href = js ''http://localhost:8080/health'', protocol = js ''http:'',
          origin = js ''http://localhost:8080'', pathname = js ''/health'',
          searchParams = Map.empty\<rparr>
         \<lparr>poMethod = js ''GET'',
          poHeaders = [js ''Referer'' \<mapsto> js ''http://localhost:8080/'',
                       js ''Origin'' \<mapsto> js ''http://localhost:8080'',
                       js ''User-Agent'' \<mapsto> USER_AGENT, js ''Accept'' \<mapsto> js ''*/*''],
          poTimeout = 20000\<rparr>"
    by (simp add: serverRequest_def selfRequest_def exampleURL_def proxyOptions_headers_def Let_def o)
next
  show "handleRequest exampleURL silentNetwork selfRequest
       = errorResponse (js ''Loop detected: self-fetch blocked'') 400"
    by (simp add: handleRequest_def handleProxyRequest_def selfRequest_def Let_def)
qed

text \<open>
  The \<open>catch\<close> of the Workers script: when the fetch of a valid target is rejected
  with an \<open>AbortError\<close>, as the 20000 ms timer's \<open>controller.abort()\<close> does, the
  answer is status 502 with the message \<open>Request timeout (20s)\<close>.
\<close>

lemma handleProxyRequest_timeout:
  assumes "\<not> startsWith raw currentOrigin" and "testHttpScheme raw"
    and "parseURL raw = Some targetURL"
    and "fetch \<lparr>prUrl = href targetURL, prMethod = reqMethod req,
                 prHeaders = upstreamHeaders (reqHeaders req) targetURL,
                 prBody = (reqMethod req \<noteq> js ''GET'' \<and> reqMethod req \<noteq> js ''HEAD'')\<rparr>
         = Rejected (js ''AbortError'') message"
  shows "handleProxyRequest parseURL fetch req raw currentOrigin
           = errorResponse (js ''Request timeout (20s)'') 502"
  using assms by (simp add: handleProxyRequest_def catchError_def Let_def)

text \<open>
  C4. For a request that carries a valid target other than the proxy itself, the Workers
  script answers a fetch that its 20000 ms timer aborted with status 502 and the message
  \<open>Request timeout (20s)\<close>. The Node script issues the upstream request with
  \<open>timeout: 20000\<close> and has no listener for the \<open>timeout\<close> event: however many
  times the request times out, the client gets no answer, and when the connection breaks
  later the answer is \<open>Proxy Error:\<close> with the message of that error.
\<close>

theorem upstream_timeout:
  assumes "reqMethod req \<noteq> js ''OPTIONS''" and "pathname (reqUrl req) \<noteq> js ''/health''"
    and "searchParams (reqUrl req) (js ''url'') = Some raw" and "raw \<noteq> []"
    and "\<not> startsWith raw (origin (reqUrl req))" and "testHttpScheme raw"
    and "parseURL raw = Some targetURL"
    and "protocol targetURL = js ''https:'' \<or> protocol targetURL = js ''http:''"
    and "fetch \<lparr>prUrl = href targetURL, prMethod = reqMethod req,
                 prHeaders = upstreamHeaders (reqHeaders req) targetURL,
                 prBody = (reqMethod req \<noteq> js ''GET'' \<and> reqMethod req \<noteq> js ''HEAD'')\<rparr>
         = Rejected (js ''AbortError'') message"
  shows "handleRequest parseURL fetch req = errorResponse (js ''Request timeout (20s)'') 502
         \<and> (\<exists>options. serverRequest [] parseURL req = Requested targetURL options
                \<and> poTimeout options = 20000)
         \<and> serverAnswer [] parseURL req (replicate n TimeoutEvent) = None
         \<and> serverAnswer [] parseURL req (replicate n TimeoutEvent @ [ErrorEvent message])
             = Some \<lparr>status = 502, statusText = [], headers = objectOf CORS_HEADERS,
                     body = Text (js ''Proxy Error: '' @ message)\<rparr>"
proof (intro conjI)
  from assms(1-4) have "handleRequest parseURL fetch req
      = handleProxyRequest parseURL fetch req raw (origin (reqUrl req))"
    by (simp add: handleRequest_def Let_def)
  also from assms(5-7,9) have "\<dots> = errorResponse (js ''Request timeout (20s)'') 502"
    by (rule handleProxyRequest_timeout)
  finally show "handleRequest parseURL fetch req
      = errorResponse (js ''Request timeout (20s)'') 502" .
next
  from assms(1-4,7,8) have r: "serverRequest [] parseURL req =
     Requested targetURL
       \<lparr>poMethod = reqMethod req, poHeaders = proxyOptions_headers (reqHeaders req) targetURL,
        poTimeout = 20000\<rparr>"
    by (auto simp: serverRequest_def Let_def)
  then show "\<exists>options. serverRequest [] parseURL req = Requested targetURL options
                \<and> poTimeout options = 20000"
    by simp
  from r show "serverAnswer [] parseURL req (replicate n TimeoutEvent) = None"
    by (simp add: serverAnswer_def firstAnswer_timeouts)
  have "firstAnswer targetURL req (replicate k TimeoutEvent @ [ErrorEvent message])
          = Some \<lparr>status = 502, statusText = [], headers = objectOf CORS_HEADERS,
                  body = Text (js ''Proxy Error: '' @ message)\<rparr>" for k
    by (induction k) (simp_all add: proxyReq_emit_def)
  with r show "serverAnswer [] parseURL req (replicate n TimeoutEvent @ [ErrorEvent message])
             = Some \<lparr>status = 502, statusText = [], headers = objectOf CORS_HEADERS,
                     body = Text (js ''Proxy Error: '' @ message)\<rparr>"
    by (simp add: serverAnswer_def)
qed

text \<open>
  The playlist of the examples behind an upstream that never answers: the Workers script
  answers 502 \<open>Request timeout (20s)\<close>, the Node script leaves the client without an
  answer after any number of timeouts.
\<close>

theorem upstream_timeout_witness:
  "\<forall>n. searchParams (reqUrl playlistRequest) (js ''url'')
           = Some (js ''https://cdn.example.com/videos/abc/index.m3u8'')
       \<and> testHttpScheme (js ''https://cdn.example.com/videos/abc/index.m3u8'')
       \<and> exampleURL (js ''https://cdn.example.com/videos/abc/index.m3u8'') = Some cdnBase
       \<and> handleRequest exampleURL silentNetwork playlistRequest
           = errorResponse (js ''Request timeout (20s)'') 502
       \<and> status (handleRequest exampleURL silentNetwork playlistRequest) = 502
       \<and> body (handleRequest exampleURL silentNetwork playlistRequest)
           = ErrorJson (js ''Request timeout (20s)'')
       \<and> (\<exists>options. serverRequest [] exampleURL playlistRequest = Requested cdnBase options
              \<and> poTimeout options = 20000)
       \<and> serverAnswer [] exampleURL playlistRequest (replicate n TimeoutEvent) = None"
proof
  fix n
  have a: "reqMethod playlistRequest \<noteq> js ''OPTIONS''"
    "pathname (reqUrl playlistRequest) \<noteq> js ''/health''"
    "searchParams (reqUrl playlistRequest) (js ''url'')
       = Some (js ''https://cdn.example.com/videos/abc/index.m3u8'')"
    "js ''https://cdn.example.com/videos/abc/index.m3u8'' \<noteq> []"
    "\<not> startsWith (js ''https://cdn.example.com/videos/abc/index.m3u8'')
         (origin (reqUrl playlistRequest))"
    by (simp_all add: playlistRequest_def)
  have t: "testHttpScheme (js ''https://cdn.example.com/videos/abc/index.m3u8'')"
    by (simp add: testHttpScheme_def asciiLower_def js_def startsWith_def)
  have p: "exampleURL (js ''https://cdn.example.com/videos/abc/index.m3u8'') = Some cdnBase"
    by (simp add: exampleURL_def)
  have q: "protocol cdnBase = js ''https:'' \<or> protocol cdnBase = js ''http:''"
    by (simp add: cdnBase_def)
  have s: "silentNetwork
             \<lparr>prUrl = href cdnBase, prMethod = reqMethod playlistRequest,
              prHeaders = upstreamHeaders (reqHeaders playlistRequest) cdnBase,
              prBody = (reqMethod playlistRequest \<noteq> js ''GET''
                        \<and> reqMethod playlistRequest \<noteq> js ''HEAD'')\<rparr>
           = Rejected (js ''AbortError'') (js ''The operation was aborted'')"
    by (simp add: silentNetwork_def)
  from upstream_timeout
         [where req = playlistRequest and raw = "js ''https://cdn.example.com/videos/abc/index.m3u8''"
            and parseURL = exampleURL and targetURL = cdnBase and fetch = silentNetwork
            and message = "js ''The operation was aborted''" and n = n, OF a t p q s]
       a t p
  show "searchParams (reqUrl playlistRequest) (js ''url'')
           = Some (js ''https://cdn.example.com/videos/abc/index.m3u8'')
       \<and> testHttpScheme (js ''https://cdn.example.com/videos/abc/index.m3u8'')
       \<and> exampleURL (js ''https://cdn.example.com/videos/abc/index.m3u8'') = Some cdnBase
       \<and> handleRequest exampleURL silentNetwork playlistRequest
           = errorResponse (js ''Request timeout (20s)'') 502
       \<and> status (handleRequest exampleURL silentNetwork playlistRequest) = 502
       \<and> body (handleRequest exampleURL silentNetwork playlistRequest)
           = ErrorJson (js ''Request timeout (20s)'')
       \<and> (\<exists>options. serverRequest [] exampleURL playlistRequest = Requested cdnBase options
              \<and> poTimeout options = 20000)
       \<and> serverAnswer [] exampleURL playlistRequest (replicate n TimeoutEvent) = None"
    by (simp add: errorResponse_record)
qed

end
